theory Spec2Isabelle
  imports Complex_Main "HOL-Library.Sublist" "HOL-Library.List_Lexorder"
begin

section \<open>Python values used by the pipeline\<close>

text \<open>
  The pipeline is \<^verbatim>\<open>telecom_etl.py\<close>. Its data are Python \<^verbatim>\<open>str\<close> values, that is
  sequences of Unicode code points: \<^verbatim>\<open>len\<close> counts code points and \<^verbatim>\<open>str.isdigit\<close> looks
  at the Unicode class of each of them. A string is therefore a list of code points, and
  comparison of strings (\<^verbatim>\<open><\<close>, \<^verbatim>\<open>>\<close>) is the lexicographic order on such lists.
\<close>

type_synonym pystr = "nat list"

type_synonym row = "pystr list"

definition lit :: "string \<Rightarrow> pystr" where
  "lit s = map of_char s"

datatype error = IndexError | ValueError | KeyError

text \<open>
  \<^verbatim>\<open>str.isdigit\<close>: true when the string is not empty and every character has
  Numeric_Type Digit or Decimal. The table lists those code points as closed intervals,
  for the Unicode database 14.0.0 of CPython 3.11; the first interval is ASCII
  \<^verbatim>\<open>'0'\<close> to \<^verbatim>\<open>'9'\<close>.
\<close>

definition digit_ranges :: "(nat \<times> nat) list" where
  "digit_ranges = [
    (48, 57), (178, 179), (185, 185), (1632, 1641), (1776, 1785), (1984, 1993),
    (2406, 2415), (2534, 2543), (2662, 2671), (2790, 2799), (2918, 2927), (3046, 3055),
    (3174, 3183), (3302, 3311), (3430, 3439), (3558, 3567), (3664, 3673), (3792, 3801),
    (3872, 3881), (4160, 4169), (4240, 4249), (4969, 4977), (6112, 6121), (6160, 6169),
    (6470, 6479), (6608, 6618), (6784, 6793), (6800, 6809), (6992, 7001), (7088, 7097),
    (7232, 7241), (7248, 7257), (8304, 8304), (8308, 8313), (8320, 8329), (9312, 9320),
    (9332, 9340), (9352, 9360), (9450, 9450), (9461, 9469), (9471, 9471), (10102, 10110),
    (10112, 10120), (10122, 10130), (42528, 42537), (43216, 43225), (43264, 43273),
    (43472, 43481), (43504, 43513), (43600, 43609), (44016, 44025), (65296, 65305),
    (66720, 66729), (68160, 68163), (68912, 68921), (69216, 69224), (69714, 69722),
    (69734, 69743), (69872, 69881), (69942, 69951), (70096, 70105), (70384, 70393),
    (70736, 70745), (70864, 70873), (71248, 71257), (71360, 71369), (71472, 71481),
    (71904, 71913), (72016, 72025), (72784, 72793), (73040, 73049), (73120, 73129),
    (92768, 92777), (92864, 92873), (93008, 93017), (120782, 120831), (123200, 123209),
    (123632, 123641), (125264, 125273), (127232, 127242), (130032, 130041)]"

definition in_ranges :: "(nat \<times> nat) list \<Rightarrow> nat \<Rightarrow> bool" where
  "in_ranges rs c = list_ex (\<lambda>(lo, hi). lo \<le> c \<and> c \<le> hi) rs"

definition isdigit_char :: "nat \<Rightarrow> bool" where
  "isdigit_char c = in_ranges digit_ranges c"

definition isdigit :: "pystr \<Rightarrow> bool" where
  "isdigit s = (s \<noteq> [] \<and> list_all isdigit_char s)"

definition ascii_digit :: "nat \<Rightarrow> bool" where
  "ascii_digit c = (48 \<le> c \<and> c \<le> 57)"

text \<open>The slice \<^verbatim>\<open>s[a:b]\<close> for \<open>0 \<le> a \<le> b\<close>.\<close>

definition slice :: "nat \<Rightarrow> nat \<Rightarrow> 'a list \<Rightarrow> 'a list" where
  "slice a b s = take (b - a) (drop a s)"

section \<open>Customer cleanser\<close>

text \<open>
  \<^verbatim>\<open>x if x not in ("", "NULL") else d\<close>
\<close>

definition or_default :: "pystr \<Rightarrow> pystr \<Rightarrow> pystr" where
  "or_default x d = (if x \<noteq> [] \<and> x \<noteq> lit ''NULL'' then x else d)"

text \<open>
  The loop of \<^verbatim>\<open>clean_customer_data\<close> over the data rows, with the two lists it appends
  to. Unpacking a row into seven names raises \<^verbatim>\<open>ValueError\<close> unless the row has exactly
  seven fields.
\<close>

fun clean_loop :: "row list \<Rightarrow> row list \<Rightarrow> row list \<Rightarrow> error + (row list \<times> row list)" where
  "clean_loop [] cleaned_rows rejected_rows = Inr (cleaned_rows, rejected_rows)"
| "clean_loop (row # data) cleaned_rows rejected_rows =
     (if length row \<noteq> 7 then Inl ValueError
      else
        let customer_id = or_default (row ! 0) (lit ''UNKNOWN'');
            name = or_default (row ! 1) (lit ''UNKNOWN_CUSTOMER'');
            phone = or_default (row ! 2) (lit ''0000000000'');
            email = or_default (row ! 3) (lit ''noemail@unknown.com'');
            reg_date = or_default (row ! 4) (lit ''1900-01-01'');
            status = or_default (row ! 5) (lit ''INACTIVE'');
            credit_limit = or_default (row ! 6) (lit ''0'')
        in
          if \<not> (isdigit phone \<and> length phone = 10)
          then clean_loop data cleaned_rows (rejected_rows @ [row])
          else
            let reg_date =
                  (if length reg_date = 8 \<and> isdigit reg_date
                   then slice 0 4 reg_date @ lit ''-'' @ slice 4 6 reg_date @ lit ''-''
                        @ slice 6 8 reg_date
                   else reg_date)
            in clean_loop data
                 (cleaned_rows @ [[customer_id, name, phone, email, reg_date, status,
                                   credit_limit]])
                 rejected_rows)"

text \<open>
  What one run leaves behind: the cleaned file (always written, with the fixed header),
  the reject file (written only if some row was rejected, with the header of the input),
  and the three counts of the summary log line.
\<close>

record clean_result =
  output_file :: "row list"
  reject_file :: "row list option"
  log_input :: nat
  log_output :: nat
  log_rejected :: nat

definition cleaned_header :: row where
  "cleaned_header = [lit ''customer_id'', lit ''name'', lit ''phone'', lit ''email'',
     lit ''registration_date'', lit ''status'', lit ''credit_limit'']"

text \<open>
  The argument is \<^verbatim>\<open>list(csv.reader(f))\<close>; \<^verbatim>\<open>rows[0]\<close> raises \<^verbatim>\<open>IndexError\<close> on an
  empty file.
\<close>

definition clean_customer_data :: "row list \<Rightarrow> error + clean_result" where
  "clean_customer_data rows =
     (case rows of
        [] \<Rightarrow> Inl IndexError
      | header # data \<Rightarrow>
          (case clean_loop data [] [] of
             Inl e \<Rightarrow> Inl e
           | Inr (cleaned_rows, rejected_rows) \<Rightarrow>
               Inr \<lparr>output_file = cleaned_header # cleaned_rows,
                    reject_file = (if rejected_rows \<noteq> [] then Some (header # rejected_rows)
                                   else None),
                    log_input = length data,
                    log_output = length cleaned_rows,
                    log_rejected = length rejected_rows\<rparr>))"

text \<open>The pieces of the loop body, named for the statements below.\<close>

definition phone_of :: "row \<Rightarrow> pystr" where
  "phone_of row = or_default (row ! 2) (lit ''0000000000'')"

definition phone_ok :: "row \<Rightarrow> bool" where
  "phone_ok row = (isdigit (phone_of row) \<and> length (phone_of row) = 10)"

definition iso_date :: "pystr \<Rightarrow> pystr" where
  "iso_date d = slice 0 4 d @ lit ''-'' @ slice 4 6 d @ lit ''-'' @ slice 6 8 d"

definition reg_date_of :: "row \<Rightarrow> pystr" where
  "reg_date_of row = or_default (row ! 4) (lit ''1900-01-01'')"

definition clean_row :: "row \<Rightarrow> row" where
  "clean_row row =
     [or_default (row ! 0) (lit ''UNKNOWN''),
      or_default (row ! 1) (lit ''UNKNOWN_CUSTOMER''),
      phone_of row,
      or_default (row ! 3) (lit ''noemail@unknown.com''),
      (if length (reg_date_of row) = 8 \<and> isdigit (reg_date_of row)
       then iso_date (reg_date_of row) else reg_date_of row),
      or_default (row ! 5) (lit ''INACTIVE''),
      or_default (row ! 6) (lit ''0'')]"

definition cleaned_rows_of :: "clean_result \<Rightarrow> row list" where
  "cleaned_rows_of res = tl (output_file res)"

definition rejected_rows_of :: "clean_result \<Rightarrow> row list" where
  "rejected_rows_of res = (case reject_file res of None \<Rightarrow> [] | Some f \<Rightarrow> tl f)"

section \<open>Usage deduplicator\<close>

fun dedup_loop :: "'a list \<Rightarrow> 'a set \<Rightarrow> 'a list \<Rightarrow> 'a list" where
  "dedup_loop [] seen deduped = deduped"
| "dedup_loop (line # lines) seen deduped =
     (if line \<notin> seen then dedup_loop lines (insert line seen) (deduped @ [line])
      else dedup_loop lines seen deduped)"

record 'a dedup_result =
  deduped_file :: "'a list"
  input_count :: int
  output_count :: int
  duplicates_removed :: int

definition deduplicate_usage_data :: "'a list \<Rightarrow> 'a dedup_result" where
  "deduplicate_usage_data lines =
     (let input_count = int (length lines);
          deduped = dedup_loop lines {} [];
          output_count = int (length deduped)
      in \<lparr>deduped_file = deduped, input_count = input_count, output_count = output_count,
          duplicates_removed = input_count - output_count\<rparr>)"

section \<open>Arithmetic on Python floats\<close>

text \<open>
  Amounts are Python floats. Nothing below depends on how a float is rounded, so the
  float operations the pipeline calls are parameters: every statement holds for whatever
  they compute. That includes the comparisons: \<^verbatim>\<open>float("nan")\<close> is accepted by \<^verbatim>\<open>float\<close>
  and compares false with everything, so the comparison of floats is not a linear order.
\<close>

record 'f arith =
  f_parse :: "pystr \<Rightarrow> 'f option"
  f_zero :: 'f
  f_add :: "'f \<Rightarrow> 'f \<Rightarrow> 'f"
  f_div :: "'f \<Rightarrow> int \<Rightarrow> 'f"
  f_sum :: "'f list \<Rightarrow> 'f"
  f_less :: "'f \<Rightarrow> 'f \<Rightarrow> bool"
  f_le :: "'f \<Rightarrow> 'f \<Rightarrow> bool"
  f_str :: "'f \<Rightarrow> pystr"
  f_fix2 :: "'f \<Rightarrow> pystr"

text \<open>
  \<open>f_parse\<close> is \<^verbatim>\<open>float(s)\<close>, with \<open>None\<close> for \<^verbatim>\<open>ValueError\<close>; \<open>f_zero\<close> is \<^verbatim>\<open>0.0\<close>, which
  is also what the integer \<^verbatim>\<open>0\<close> becomes when a float is added to it; \<open>f_add\<close> is \<^verbatim>\<open>+\<close>;
  \<open>f_div\<close> is \<^verbatim>\<open>/\<close> by an integer; \<open>f_sum\<close> is the builtin \<^verbatim>\<open>sum\<close>; \<open>f_less\<close> is \<^verbatim>\<open><\<close>, and
  \<^verbatim>\<open>x > y\<close> on two floats is \<^verbatim>\<open>y < x\<close>; \<open>f_le\<close> is \<^verbatim>\<open><=\<close>, which the pipeline does not call
  and which only the statements about minimum and maximum use; \<open>f_str\<close> is what an
  f-string prints for \<^verbatim>\<open>{x}\<close> and \<open>f_fix2\<close> what it prints for \<^verbatim>\<open>{x:.2f}\<close>.
\<close>

datatype 'f pynum = PyInt int | PyFloat 'f

text \<open>Decimal notation of an integer, as \<^verbatim>\<open>str\<close> and f-strings print it.\<close>

fun str_nat :: "nat \<Rightarrow> pystr" where
  "str_nat n = (if n < 10 then [48 + n] else str_nat (n div 10) @ [48 + n mod 10])"

declare str_nat.simps [simp del]

definition str_int :: "int \<Rightarrow> pystr" where
  "str_int i = (if i < 0 then 45 # str_nat (nat (- i)) else str_nat (nat i))"

definition num_str :: "'f arith \<Rightarrow> 'f pynum \<Rightarrow> pystr" where
  "num_str A x = (case x of PyInt i \<Rightarrow> str_int i | PyFloat v \<Rightarrow> f_str A v)"

section \<open>Lines and fields\<close>

text \<open>
  \<^verbatim>\<open>str.isspace\<close> of one character (Unicode 14.0.0), \<^verbatim>\<open>str.strip()\<close>,
  \<^verbatim>\<open>str.split(sep)\<close> for a separator of one character, and \<^verbatim>\<open>s.replace(c, '', 1)\<close>,
  which is \<open>remove1\<close>.
\<close>

definition space_ranges :: "(nat \<times> nat) list" where
  "space_ranges = [(9, 13), (28, 32), (133, 133), (160, 160), (5760, 5760), (8192, 8202),
     (8232, 8233), (8239, 8239), (8287, 8287), (12288, 12288)]"

definition isspace_char :: "nat \<Rightarrow> bool" where
  "isspace_char c = in_ranges space_ranges c"

definition strip :: "pystr \<Rightarrow> pystr" where
  "strip s = rev (dropWhile isspace_char (rev (dropWhile isspace_char s)))"

fun split_on :: "nat \<Rightarrow> pystr \<Rightarrow> pystr list" where
  "split_on sep [] = [[]]"
| "split_on sep (c # s) =
     (if c = sep then [] # split_on sep s
      else (case split_on sep s of [] \<Rightarrow> [[c]] | p # ps \<Rightarrow> (c # p) # ps))"

definition nl :: pystr where
  "nl = [10]"

section \<open>Billing aggregator\<close>

text \<open>
  The five dictionaries of \<^verbatim>\<open>aggregate_billing_data\<close>. A Python dictionary keeps its keys
  in the order of their first insertion and the final loop iterates in that order, so a
  dictionary is an association list: assigning to a key that is present replaces the value
  in place, assigning to a new key appends.
\<close>

fun dict_set :: "('k \<times> 'v) list \<Rightarrow> 'k \<Rightarrow> 'v \<Rightarrow> ('k \<times> 'v) list" where
  "dict_set [] k v = [(k, v)]"
| "dict_set ((k', v') # d) k v =
     (if k' = k then (k, v) # d else (k', v') # dict_set d k v)"

definition dict_get :: "('k \<times> 'v) list \<Rightarrow> 'k \<Rightarrow> 'v \<Rightarrow> 'v" where
  "dict_get d k dflt = (case map_of d k of None \<Rightarrow> dflt | Some v \<Rightarrow> v)"

record 'f billing_dicts =
  totals :: "(pystr \<times> 'f) list"
  counts :: "(pystr \<times> int) list"
  mins :: "(pystr \<times> 'f) list"
  maxs :: "(pystr \<times> 'f) list"
  last_dates :: "(pystr \<times> pystr) list"

definition no_dicts :: "'f billing_dicts" where
  "no_dicts = \<lparr>totals = [], counts = [], mins = [], maxs = [], last_dates = []\<rparr>"

text \<open>\<^verbatim>\<open>float(row[1]) if row[1] not in ("", "NULL") else 0.0\<close>\<close>

definition row_amount :: "'f arith \<Rightarrow> row \<Rightarrow> 'f option" where
  "row_amount A row =
     (if row ! 1 \<noteq> [] \<and> row ! 1 \<noteq> lit ''NULL'' then f_parse A (row ! 1)
      else Some (f_zero A))"

text \<open>
  The loop over the split rows. \<^verbatim>\<open>row[1]\<close> and \<^verbatim>\<open>row[2]\<close> raise \<^verbatim>\<open>IndexError\<close> on a
  row that is too short (\<^verbatim>\<open>row[0]\<close> exists, since \<^verbatim>\<open>split\<close> returns at least one field),
  \<^verbatim>\<open>float\<close> raises \<^verbatim>\<open>ValueError\<close>.
\<close>

fun billing_loop ::
  "'f arith \<Rightarrow> row list \<Rightarrow> 'f billing_dicts \<Rightarrow> error + 'f billing_dicts" where
  "billing_loop A [] st = Inr st"
| "billing_loop A (row # data) st =
     (if length row < 2 then Inl IndexError
      else
        (case row_amount A row of
           None \<Rightarrow> Inl ValueError
         | Some amount \<Rightarrow>
             if length row < 3 then Inl IndexError
             else
               let customer_id = row ! 0;
                   billing_date = row ! 2
               in billing_loop A data
                    \<lparr>totals = dict_set (totals st) customer_id
                                (f_add A (dict_get (totals st) customer_id (f_zero A)) amount),
                     counts = dict_set (counts st) customer_id
                                (dict_get (counts st) customer_id 0 + 1),
                     mins = (if (case map_of (mins st) customer_id of
                                   None \<Rightarrow> True | Some m \<Rightarrow> f_less A amount m)
                             then dict_set (mins st) customer_id amount else mins st),
                     maxs = (if (case map_of (maxs st) customer_id of
                                   None \<Rightarrow> True | Some m \<Rightarrow> f_less A m amount)
                             then dict_set (maxs st) customer_id amount else maxs st),
                     last_dates = (if (case map_of (last_dates st) customer_id of
                                         None \<Rightarrow> True | Some d \<Rightarrow> billing_date > d)
                                   then dict_set (last_dates st) customer_id billing_date
                                   else last_dates st)\<rparr>))"

record 'f summary =
  s_customer_id :: pystr
  s_total :: 'f
  s_avg :: "'f pynum"
  s_count :: int
  s_min :: 'f
  s_max :: 'f
  s_last_date :: pystr

text \<open>
  The loop \<^verbatim>\<open>for cust_id in totals\<close>: the values interpolated into one output line.
  Indexing a dictionary with a key it does not have raises \<^verbatim>\<open>KeyError\<close>.
\<close>

fun summarise :: "'f arith \<Rightarrow> 'f billing_dicts \<Rightarrow> pystr list \<Rightarrow> error + 'f summary list" where
  "summarise A st [] = Inr []"
| "summarise A st (cust_id # ks) =
     (case (map_of (totals st) cust_id, map_of (counts st) cust_id, map_of (mins st) cust_id,
            map_of (maxs st) cust_id, map_of (last_dates st) cust_id) of
        (Some total', Some count, Some mn, Some mx, Some ld) \<Rightarrow>
          (case summarise A st ks of
             Inl e \<Rightarrow> Inl e
           | Inr rest \<Rightarrow>
               Inr (\<lparr>s_customer_id = cust_id, s_total = total',
                     s_avg = (if count > 0 then PyFloat (f_div A total' count) else PyInt 0),
                     s_count = count, s_min = mn, s_max = mx, s_last_date = ld\<rparr> # rest))
      | _ \<Rightarrow> Inl KeyError)"

definition bar :: pystr where
  "bar = lit ''|''"

definition summary_line :: "'f arith \<Rightarrow> 'f summary \<Rightarrow> pystr" where
  "summary_line A s =
     s_customer_id s @ bar @ f_str A (s_total s) @ bar @ num_str A (s_avg s) @ bar
     @ str_int (s_count s) @ bar @ f_str A (s_min s) @ bar @ f_str A (s_max s) @ bar
     @ s_last_date s @ nl"

definition aggregated_header :: pystr where
  "aggregated_header =
     lit ''customer_id|total_amount|avg_amount|record_count|min_amount|max_amount|last_billing_date''
     @ nl"

record 'f billing_result =
  b_summaries :: "'f summary list"
  b_file :: "pystr list"

definition billing_rows :: "pystr list \<Rightarrow> row list" where
  "billing_rows lines = map (\<lambda>line. split_on 124 (strip line)) (drop 1 lines)"

text \<open>
  The argument is \<^verbatim>\<open>f.readlines()\<close> of the billing file; \<^verbatim>\<open>lines[0]\<close> raises
  \<^verbatim>\<open>IndexError\<close> on an empty file.
\<close>

definition aggregate_billing_data ::
  "'f arith \<Rightarrow> pystr list \<Rightarrow> error + 'f billing_result" where
  "aggregate_billing_data A lines =
     (if lines = [] then Inl IndexError
      else
        (case billing_loop A (billing_rows lines) no_dicts of
           Inl e \<Rightarrow> Inl e
         | Inr st \<Rightarrow>
             (case summarise A st (map fst (totals st)) of
                Inl e \<Rightarrow> Inl e
              | Inr ss \<Rightarrow>
                  Inr \<lparr>b_summaries = ss,
                       b_file = aggregated_header # map (summary_line A) ss\<rparr>)))"

text \<open>
  What the statements about the aggregator compare its output with: the amount a row
  stands for (zero when the field is empty or \<^verbatim>\<open>NULL\<close>, else the number the field denotes,
  if it denotes one), and the amounts and the dates of the rows of one customer, in the
  order of the file.
\<close>

definition amount_read :: "'f arith \<Rightarrow> pystr \<Rightarrow> 'f option" where
  "amount_read A field =
     (if field = [] \<or> field = lit ''NULL'' then Some (f_zero A) else f_parse A field)"

fun amounts_of :: "'f arith \<Rightarrow> pystr \<Rightarrow> row list \<Rightarrow> 'f list" where
  "amounts_of A c [] = []"
| "amounts_of A c (row # data) =
     (if row ! 0 = c
      then (case amount_read A (row ! 1) of
              None \<Rightarrow> amounts_of A c data
            | Some a \<Rightarrow> a # amounts_of A c data)
      else amounts_of A c data)"

definition dates_of :: "pystr \<Rightarrow> row list \<Rightarrow> pystr list" where
  "dates_of c data = map (\<lambda>row. row ! 2) (filter (\<lambda>row. row ! 0 = c) data)"

definition valid_billing :: "'f arith \<Rightarrow> pystr list \<Rightarrow> bool" where
  "valid_billing A lines =
     (lines \<noteq> [] \<and> list_all (\<lambda>row. 3 \<le> length row \<and> amount_read A (row ! 1) \<noteq> None)
                      (billing_rows lines))"

section \<open>Report composer\<close>

definition usage_heading :: pystr where
  "usage_heading = lit ''USAGE DATA STATISTICS:'' @ nl"

definition customer_heading :: pystr where
  "customer_heading = lit ''CUSTOMER DATA STATISTICS:'' @ nl"

definition billing_heading :: pystr where
  "billing_heading = lit ''BILLING DATA STATISTICS:'' @ nl"

definition summary_heading :: pystr where
  "summary_heading = lit ''PROCESSING SUMMARY:'' @ nl"

text \<open>
  The loop over the data lines of the usage file, with the running total and the text
  written so far. The three \<^verbatim>\<open>f.write\<close> calls of the usage section are indented into the
  body of the loop, so they run once for every data line.
\<close>

fun usage_loop ::
  "'f arith \<Rightarrow> pystr list \<Rightarrow> int \<Rightarrow> 'f \<Rightarrow> pystr list \<Rightarrow> error + pystr list" where
  "usage_loop A [] total_usage_records total_data_usage f = Inr f"
| "usage_loop A (line # data_lines) total_usage_records total_data_usage f =
     (let parts = split_on 124 line
      in case (if 3 \<le> length parts \<and> isdigit (remove1 46 (parts ! 2))
               then map_option (f_add A total_data_usage) (f_parse A (parts ! 2))
               else Some total_data_usage) of
           None \<Rightarrow> Inl ValueError
         | Some total_data_usage \<Rightarrow>
             usage_loop A data_lines total_usage_records total_data_usage
               (f @ [usage_heading,
                     lit ''  - Total usage records: '' @ str_int total_usage_records @ nl,
                     lit ''  - Total data usage (MB): '' @ f_str A total_data_usage
                     @ nl @ nl]))"

text \<open>\<^verbatim>\<open>float(line.split('|')[1])\<close> for each line after the first, in order.\<close>

fun revenues :: "'f arith \<Rightarrow> pystr list \<Rightarrow> error + 'f list" where
  "revenues A [] = Inr []"
| "revenues A (line # ls) =
     (let parts = split_on 124 line
      in if length parts < 2 then Inl IndexError
         else (case f_parse A (parts ! 1) of
                 None \<Rightarrow> Inl ValueError
               | Some v \<Rightarrow>
                   (case revenues A ls of Inl e \<Rightarrow> Inl e | Inr vs \<Rightarrow> Inr (v # vs))))"

text \<open>
  The report is the list of the strings written to it, one for each \<^verbatim>\<open>f.write\<close>, in
  order. \<open>now\<close> is the formatted time of the title line and \<open>now_str\<close> the unformatted
  \<^verbatim>\<open>datetime.now()\<close> of the last line; \<open>reader\<close> is \<^verbatim>\<open>list(csv.reader(cf))\<close> of the cleaned
  customer file, the other two arguments are the lines of the deduplicated usage file and
  of the aggregated billing file. \<^verbatim>\<open>row[5]\<close> raises \<^verbatim>\<open>IndexError\<close> on a short row.
\<close>

definition create_final_report ::
  "'f arith \<Rightarrow> pystr \<Rightarrow> pystr \<Rightarrow> row list \<Rightarrow> pystr list \<Rightarrow> pystr list
     \<Rightarrow> error + pystr list" where
  "create_final_report A now now_str reader usage_lines billing_lines =
     (let f = [lit ''=== TELECOM DAILY ETL REPORT - '' @ now @ lit '' ==='' @ nl @ nl];
          total_customers = int (length reader) - 1
      in if list_ex (\<lambda>row. length row < 6) (drop 1 reader) then Inl IndexError
         else
           let active = int (length (filter (\<lambda>row. row ! 5 = lit ''ACTIVE'') (drop 1 reader)));
               f = f @ [customer_heading,
                        lit ''  - Total customers processed: '' @ str_int total_customers @ nl,
                        lit ''  - Active customers: '' @ str_int active @ nl @ nl];
               lines = map strip usage_lines;
               data_lines = drop 1 lines;
               total_usage_records = int (length data_lines)
           in case usage_loop A data_lines total_usage_records (f_zero A) f of
                Inl e \<Rightarrow> Inl e
              | Inr f \<Rightarrow>
                  let total_billing_customers = int (length billing_lines) - 1
                  in case revenues A (drop 1 billing_lines) of
                       Inl e \<Rightarrow> Inl e
                     | Inr vs \<Rightarrow>
                         let total_revenue = f_sum A vs
                         in Inr (f @ [billing_heading,
                                      lit ''  - Customers with billing: ''
                                      @ str_int total_billing_customers @ nl,
                                      lit ''  - Total revenue: '' @ f_fix2 A total_revenue
                                      @ nl @ nl,
                                      summary_heading,
                                      lit ''  - Script: telecom_etl_pipeline (Python version)''
                                      @ nl,
                                      lit ''  - Status: SUCCESS'' @ nl,
                                      lit ''  - Report generated at: '' @ now_str @ nl]))"

section \<open>Notions used in the statements\<close>

text \<open>The distinct elements of a list, each at the place of its first occurrence.\<close>

definition first_seen :: "'a list \<Rightarrow> 'a list" where
  "first_seen xs = map (\<lambda>i. xs ! i) (filter (\<lambda>i. xs ! i \<notin> set (take i xs)) [0..<length xs])"

text \<open>
  The customer ids of the billing rows in order, the rows of one customer, and the state
  of the five dictionaries once the loop has consumed \<open>data\<close>.
\<close>

definition ids_of :: "row list \<Rightarrow> pystr list" where
  "ids_of data = map (\<lambda>row. row ! 0) data"

definition rows_of :: "pystr \<Rightarrow> row list \<Rightarrow> row list" where
  "rows_of c data = filter (\<lambda>row. row ! 0 = c) data"

text \<open>
  The value the loop keeps as minimum of a customer: the first amount, replaced by each
  later amount that \<^verbatim>\<open><\<close> finds smaller; and likewise the maximum.
\<close>

definition kept_min :: "'f arith \<Rightarrow> 'f list \<Rightarrow> 'f" where
  "kept_min A xs =
     (case xs of
        [] \<Rightarrow> f_zero A
      | x # r \<Rightarrow> foldl (\<lambda>m a. if f_less A a m then a else m) x r)"

definition kept_max :: "'f arith \<Rightarrow> 'f list \<Rightarrow> 'f" where
  "kept_max A xs =
     (case xs of
        [] \<Rightarrow> f_zero A
      | x # r \<Rightarrow> foldl (\<lambda>m a. if f_less A m a then a else m) x r)"

text \<open>
  The comparisons of floats on values none of which is NaN: \<^verbatim>\<open><\<close> is irreflexive and
  transitive, and \<^verbatim>\<open>x <= y\<close> holds exactly when \<^verbatim>\<open>y < x\<close> does not. With a NaN among the
  values the last part fails, since both \<^verbatim>\<open>x <= nan\<close> and \<^verbatim>\<open>nan < x\<close> are false.
\<close>

definition comparable :: "'f arith \<Rightarrow> 'f list \<Rightarrow> bool" where
  "comparable A xs \<longleftrightarrow>
     (\<forall>a\<in>set xs. \<not> f_less A a a)
     \<and> (\<forall>a\<in>set xs. \<forall>b\<in>set xs. f_le A a b \<longleftrightarrow> \<not> f_less A b a)
     \<and> (\<forall>a\<in>set xs. \<forall>b\<in>set xs. \<forall>c\<in>set xs.
           f_less A a b \<and> f_less A b c \<longrightarrow> f_less A a c)"

definition summary_for :: "'f arith \<Rightarrow> row list \<Rightarrow> pystr \<Rightarrow> 'f summary" where
  "summary_for A data c =
     \<lparr>s_customer_id = c,
      s_total = foldl (f_add A) (f_zero A) (amounts_of A c data),
      s_avg = PyFloat (f_div A (foldl (f_add A) (f_zero A) (amounts_of A c data))
                        (int (length (rows_of c data)))),
      s_count = int (length (rows_of c data)),
      s_min = kept_min A (amounts_of A c data),
      s_max = kept_max A (amounts_of A c data),
      s_last_date = Max (set (dates_of c data))\<rparr>"

definition dicts_after :: "'f arith \<Rightarrow> row list \<Rightarrow> 'f billing_dicts \<Rightarrow> bool" where
  "dicts_after A data st \<longleftrightarrow>
     map fst (totals st) = dedup_loop (ids_of data) {} []
     \<and> (\<forall>c. map_of (totals st) c =
            (if c \<in> set (ids_of data)
             then Some (foldl (f_add A) (f_zero A) (amounts_of A c data)) else None))
     \<and> (\<forall>c. map_of (counts st) c =
            (if c \<in> set (ids_of data) then Some (int (length (rows_of c data))) else None))
     \<and> (\<forall>c. map_of (mins st) c =
            (if c \<in> set (ids_of data) then Some (kept_min A (amounts_of A c data)) else None))
     \<and> (\<forall>c. map_of (maxs st) c =
            (if c \<in> set (ids_of data) then Some (kept_max A (amounts_of A c data)) else None))
     \<and> (\<forall>c. map_of (last_dates st) c =
            (if c \<in> set (ids_of data) then Some (Max (set (dates_of c data))) else None))"

section \<open>Sample inputs\<close>

text \<open>
  A sample arithmetic to run the definitions on: exact rationals and NaN. A number is read
  from decimal notation (ASCII digits with at most one point) and NaN from \<^verbatim>\<open>nan\<close>; NaN
  propagates through the operations and every comparison with it is false.
  \<open>sample_str\<close> and \<open>sample_fix2\<close> print a number that is not negative and has at most one
  fraction digit, the way Python prints the floats \<^verbatim>\<open>10.0\<close>, \<^verbatim>\<open>120.5\<close> and \<^verbatim>\<open>30.00\<close>. All
  the numbers of the samples below are binary fractions, on which the float operations
  are exact.
\<close>

datatype sample_float = NaN | Val rat

definition dec_value :: "pystr \<Rightarrow> nat" where
  "dec_value s = foldl (\<lambda>a c. 10 * a + (c - 48)) 0 s"

definition sample_parse :: "pystr \<Rightarrow> sample_float option" where
  "sample_parse s =
     (let ip = takeWhile (\<lambda>c. c \<noteq> 46) s;
          fp = drop 1 (dropWhile (\<lambda>c. c \<noteq> 46) s)
      in if s = lit ''nan'' then Some NaN
         else if ip @ fp \<noteq> [] \<and> list_all ascii_digit (ip @ fp)
         then Some (Val (of_nat (dec_value (ip @ fp)) / 10 ^ length fp)) else None)"

definition sample_add :: "sample_float \<Rightarrow> sample_float \<Rightarrow> sample_float" where
  "sample_add x y = (case (x, y) of (Val a, Val b) \<Rightarrow> Val (a + b) | _ \<Rightarrow> NaN)"

definition sample_div :: "sample_float \<Rightarrow> int \<Rightarrow> sample_float" where
  "sample_div x n = (case x of Val a \<Rightarrow> Val (a / of_int n) | NaN \<Rightarrow> NaN)"

definition sample_less :: "sample_float \<Rightarrow> sample_float \<Rightarrow> bool" where
  "sample_less x y = (case (x, y) of (Val a, Val b) \<Rightarrow> a < b | _ \<Rightarrow> False)"

definition sample_le :: "sample_float \<Rightarrow> sample_float \<Rightarrow> bool" where
  "sample_le x y = (case (x, y) of (Val a, Val b) \<Rightarrow> a \<le> b | _ \<Rightarrow> False)"

definition sample_str :: "sample_float \<Rightarrow> pystr" where
  "sample_str x =
     (case x of
        NaN \<Rightarrow> lit ''nan''
      | Val q \<Rightarrow> str_int \<lfloor>q\<rfloor> @ lit ''.'' @ str_nat (nat \<lfloor>(q - of_int \<lfloor>q\<rfloor>) * 10\<rfloor>))"

definition sample_fix2 :: "sample_float \<Rightarrow> pystr" where
  "sample_fix2 x = (case x of NaN \<Rightarrow> lit ''nan'' | Val q \<Rightarrow> sample_str x @ lit ''0'')"

definition sample_arith :: "sample_float arith" where
  "sample_arith = \<lparr>f_parse = sample_parse, f_zero = Val 0, f_add = sample_add,
     f_div = sample_div, f_sum = foldl sample_add (Val 0), f_less = sample_less,
     f_le = sample_le, f_str = sample_str, f_fix2 = sample_fix2\<rparr>"

definition customers_header :: row where
  "customers_header = [lit ''customer_id'', lit ''name'', lit ''phone'', lit ''email'',
     lit ''reg_date'', lit ''status'', lit ''credit_limit'']"

definition row_alice :: row where
  "row_alice = [lit ''C1'', lit ''Alice'', [], lit ''a@x.com'', lit ''20240101'',
     lit ''ACTIVE'', lit ''500'']"

definition row_alice_cleaned :: row where
  "row_alice_cleaned = [lit ''C1'', lit ''Alice'', lit ''0000000000'', lit ''a@x.com'',
     lit ''2024-01-01'', lit ''ACTIVE'', lit ''500'']"

definition row_short_phone :: row where
  "row_short_phone = [lit ''C2'', lit ''Bob'', lit ''12345'', lit ''NULL'', lit ''2024/01/02'',
     lit ''NULL'', []]"

text \<open>A phone number of ten Arabic-Indic digits, U+0661 to U+0669 and U+0660.\<close>

definition row_arabic_phone :: row where
  "row_arabic_phone = [lit ''C3'', lit ''Carol'',
     [1633, 1634, 1635, 1636, 1637, 1638, 1639, 1640, 1641, 1632],
     lit ''c@x.com'', lit ''2024-01-03'', lit ''ACTIVE'', lit ''10'']"

definition sample_customers :: "row list" where
  "sample_customers = [customers_header, row_alice, row_short_phone]"

definition sample_clean_result :: clean_result where
  "sample_clean_result =
     \<lparr>output_file = [cleaned_header, row_alice_cleaned],
      reject_file = Some [customers_header, row_short_phone],
      log_input = 2, log_output = 1, log_rejected = 1\<rparr>"

definition sample_usage :: "pystr list" where
  "sample_usage = [lit ''a'' @ nl, lit ''b'' @ nl, lit ''a'' @ nl]"

definition sample_billing :: "pystr list" where
  "sample_billing = [lit ''customer_id|amount|billing_date'' @ nl,
     lit ''C1|10.0|2024-01-05'' @ nl,
     lit ''C2|NULL|2024-01-07'' @ nl,
     lit ''C1|20.0|2024-01-10'' @ nl]"

definition sample_summaries :: "sample_float summary list" where
  "sample_summaries =
     [\<lparr>s_customer_id = lit ''C1'', s_total = Val 30, s_avg = PyFloat (Val 15), s_count = 2,
       s_min = Val 10, s_max = Val 20, s_last_date = lit ''2024-01-10''\<rparr>,
      \<lparr>s_customer_id = lit ''C2'', s_total = Val 0, s_avg = PyFloat (Val 0), s_count = 1,
       s_min = Val 0, s_max = Val 0, s_last_date = lit ''2024-01-07''\<rparr>]"

text \<open>A billing file with an amount that \<^verbatim>\<open>float\<close> reads as NaN.\<close>

definition nan_billing :: "pystr list" where
  "nan_billing = [lit ''customer_id|amount|billing_date'' @ nl,
     lit ''C2|nan|2024-01-01'' @ nl,
     lit ''C2|7.0|2024-01-02'' @ nl]"

definition nan_summary :: "sample_float summary" where
  "nan_summary =
     \<lparr>s_customer_id = lit ''C2'', s_total = NaN, s_avg = PyFloat NaN, s_count = 2,
      s_min = NaN, s_max = NaN, s_last_date = lit ''2024-01-02''\<rparr>"

text \<open>Four customer rows whose phone numbers pass and fail in turn.\<close>

definition row_letters_phone :: row where
  "row_letters_phone = [lit ''C4'', lit ''Dan'', lit ''12345abcde'', lit ''d@x.com'',
     lit ''20240104'', lit ''ACTIVE'', lit ''7'']"

definition interleaved_customers :: "row list" where
  "interleaved_customers =
     [customers_header, row_alice, row_short_phone, row_arabic_phone, row_letters_phone]"

text \<open>The three files the report reads, and the two times it prints.\<close>

definition sample_cleaned :: "row list" where
  "sample_cleaned = [cleaned_header, row_alice_cleaned]"

definition sample_deduped :: "pystr list" where
  "sample_deduped = [lit ''customer_id|call_minutes|data_usage_mb'' @ nl,
     lit ''C1|5|100.5'' @ nl,
     lit ''C2|7|20'' @ nl]"

definition sample_deduped_header_only :: "pystr list" where
  "sample_deduped_header_only = [lit ''customer_id|call_minutes|data_usage_mb'' @ nl]"

definition sample_aggregated :: "pystr list" where
  "sample_aggregated = [aggregated_header,
     lit ''C1|30.0|15.0|2|10.0|20.0|2024-01-10'' @ nl,
     lit ''C2|0.0|0.0|1|0.0|0.0|2024-01-07'' @ nl]"

definition sample_now :: pystr where
  "sample_now = lit ''2024-01-11 00:00:00''"

definition sample_now_str :: pystr where
  "sample_now_str = lit ''2024-01-11 00:00:00.000001''"

section \<open>Properties of the cleanser\<close>

lemmas eval_strings = lit_def isdigit_def isdigit_char_def in_ranges_def digit_ranges_def
  slice_def nl_def

lemma clean_loop_eq:
  "\<forall>r\<in>set data. length r = 7 \<Longrightarrow>
   clean_loop data cleaned rejected =
     Inr (cleaned @ map clean_row (filter phone_ok data),
          rejected @ filter (\<lambda>r. \<not> phone_ok r) data)"
  by (induction data arbitrary: cleaned rejected)
     (simp_all add: clean_row_def phone_ok_def phone_of_def reg_date_of_def iso_date_def Let_def)

lemma clean_loop_fields:
  "clean_loop data cleaned rejected = Inr res \<Longrightarrow> \<forall>r\<in>set data. length r = 7"
  by (induction data arbitrary: cleaned rejected) (auto simp: Let_def split: if_splits)

lemma clean_customer_data_eq:
  assumes "\<forall>r\<in>set data. length r = 7"
  shows "clean_customer_data (header # data) =
     Inr \<lparr>output_file = cleaned_header # map clean_row (filter phone_ok data),
          reject_file = (if filter (\<lambda>r. \<not> phone_ok r) data \<noteq> []
                         then Some (header # filter (\<lambda>r. \<not> phone_ok r) data) else None),
          log_input = length data,
          log_output = length (filter phone_ok data),
          log_rejected = length (filter (\<lambda>r. \<not> phone_ok r) data)\<rparr>"
  using clean_loop_eq [OF assms, of "[]" "[]"] by (simp add: clean_customer_data_def)

lemma clean_customer_data_Inr:
  assumes "clean_customer_data rows = Inr res"
  shows "\<exists>header data. rows = header # data \<and> (\<forall>r\<in>set data. length r = 7)"
  using assms clean_loop_fields
  by (auto simp: clean_customer_data_def split: list.splits sum.splits)

lemma length_iso_date: "length d = 8 \<Longrightarrow> length (iso_date d) = 10"
  by (simp add: iso_date_def slice_def lit_def)

lemma length_clean_row: "length (clean_row r) = 7"
  by (simp add: clean_row_def)

lemma phone_of_clean_row: "phone_of (clean_row r) = phone_of r"
  by (simp add: clean_row_def phone_of_def or_default_def lit_def)

lemma phone_ok_clean_row: "phone_ok (clean_row r) = phone_ok r"
  by (simp add: phone_ok_def phone_of_clean_row)

lemma reg_date_of_nonnull: "reg_date_of r \<noteq> [] \<and> reg_date_of r \<noteq> lit ''NULL''"
  by (simp add: reg_date_of_def or_default_def lit_def)

lemma clean_row_date_cases:
  "clean_row r ! 4 = reg_date_of r \<and> \<not> (length (reg_date_of r) = 8 \<and> isdigit (reg_date_of r))
   \<or> length (clean_row r ! 4) = 10"
  using length_iso_date [of "reg_date_of r"] by (auto simp: clean_row_def)

lemma length_lit_NULL: "length (lit ''NULL'') = 4"
  by (simp add: lit_def)

lemma clean_row_date_nonnull: "clean_row r ! 4 \<noteq> [] \<and> clean_row r ! 4 \<noteq> lit ''NULL''"
  using clean_row_date_cases [of r] reg_date_of_nonnull [of r] length_lit_NULL by auto

lemma reg_date_fixed: "reg_date_of (clean_row r) = clean_row r ! 4"
  using clean_row_date_nonnull [of r] by (simp add: reg_date_of_def or_default_def)

lemma reg_date_stable:
  "\<not> (length (clean_row r ! 4) = 8 \<and> isdigit (clean_row r ! 4))"
  using clean_row_date_cases [of r] by auto

lemma clean_row_idem: "clean_row (clean_row r) = clean_row r"
proof -
  have "clean_row (clean_row r) ! 4 = clean_row r ! 4"
    using reg_date_stable [of r] reg_date_fixed [of r]
    by (auto simp: clean_row_def [of "clean_row r"])
  moreover have "\<forall>i\<in>{0,1,2,3,5,6}. clean_row (clean_row r) ! i = clean_row r ! i"
    by (simp add: clean_row_def phone_of_def or_default_def lit_def)
  ultimately have "\<forall>i<7. clean_row (clean_row r) ! i = clean_row r ! i"
    by (auto simp: less_Suc_eq numeral_eq_Suc)
  then show ?thesis
    by (intro nth_equalityI) (simp_all add: length_clean_row)
qed

lemma sample_clean_run: "clean_customer_data sample_customers = Inr sample_clean_result"
  by (simp add: sample_customers_def sample_clean_result_def clean_customer_data_def
      or_default_def eval_strings Let_def customers_header_def row_alice_def
      row_alice_cleaned_def row_short_phone_def)

lemma sample_rows_seven: "\<forall>r\<in>set [row_alice, row_short_phone]. length r = 7"
  by (simp add: row_alice_def row_short_phone_def)

text \<open>
  C2, as the code has it. Every row of the cleaned output has a phone field of exactly ten
  characters, each of them a digit in the sense of \<^verbatim>\<open>str.isdigit\<close>. That is more than the
  ASCII digits: a phone number of ten Arabic-Indic digits is cleaned, not rejected.
\<close>

theorem cleaned_phone_isdigit:
  assumes "clean_customer_data rows = Inr res" and "r \<in> set (cleaned_rows_of res)"
  shows "length (r ! 2) = 10 \<and> list_all isdigit_char (r ! 2)"
proof -
  from assms(1) obtain header data where rows: "rows = header # data"
    and seven: "\<forall>r\<in>set data. length r = 7"
    using clean_customer_data_Inr by blast
  from assms clean_customer_data_eq [OF seven, of header]
  obtain r0 where "r0 \<in> set data" "phone_ok r0" "r = clean_row r0"
    by (auto simp: rows cleaned_rows_of_def)
  then show ?thesis
    by (simp add: clean_row_def phone_ok_def isdigit_def)
qed

theorem cleaned_phone_isdigit_witness:
  "clean_customer_data sample_customers = Inr sample_clean_result
   \<and> row_alice_cleaned \<in> set (cleaned_rows_of sample_clean_result)
   \<and> length (row_alice_cleaned ! 2) = 10 \<and> list_all isdigit_char (row_alice_cleaned ! 2)"
proof -
  have mem: "row_alice_cleaned \<in> set (cleaned_rows_of sample_clean_result)"
    by (simp add: cleaned_rows_of_def sample_clean_result_def)
  from cleaned_phone_isdigit [OF sample_clean_run mem] sample_clean_run mem
  show ?thesis by simp
qed

theorem cleaned_phone_ascii_counterexample:
  "clean_customer_data [customers_header, row_arabic_phone] =
     Inr \<lparr>output_file = [cleaned_header, row_arabic_phone], reject_file = None,
          log_input = 1, log_output = 1, log_rejected = 0\<rparr>
   \<and> row_arabic_phone ! 2 = [1633, 1634, 1635, 1636, 1637, 1638, 1639, 1640, 1641, 1632]
   \<and> \<not> list_all ascii_digit (row_arabic_phone ! 2)"
  by (simp add: clean_customer_data_def or_default_def eval_strings Let_def
      row_arabic_phone_def ascii_digit_def)

text \<open>
  C3. Idempotence: when a run succeeds, a second run on the rows of its cleaned file
  produces the same cleaned file, rejects nothing and writes no reject file.
\<close>

theorem clean_idempotent:
  assumes "clean_customer_data rows = Inr res"
  shows "\<exists>res2. clean_customer_data (output_file res) = Inr res2
           \<and> output_file res2 = output_file res
           \<and> reject_file res2 = None \<and> log_rejected res2 = 0"
proof -
  from assms obtain header data where rows: "rows = header # data"
    and seven: "\<forall>r\<in>set data. length r = 7"
    using clean_customer_data_Inr by blast
  let ?c = "map clean_row (filter phone_ok data)"
  have out: "output_file res = cleaned_header # ?c"
    using assms clean_customer_data_eq [OF seven, of header] by (auto simp: rows)
  have c7: "\<forall>r\<in>set ?c. length r = 7"
    by (simp add: length_clean_row)
  have ok: "filter phone_ok ?c = ?c"
    by (simp add: filter_map o_def phone_ok_clean_row)
  have nok: "filter (\<lambda>r. \<not> phone_ok r) ?c = []"
    by (simp add: filter_map o_def phone_ok_clean_row)
  have idem: "map clean_row ?c = ?c"
    by (simp add: clean_row_idem)
  show ?thesis
    using clean_customer_data_eq [OF c7, of cleaned_header]
    by (simp only: out ok nok idem) simp
qed

theorem clean_idempotent_witness:
  "clean_customer_data sample_customers = Inr sample_clean_result
   \<and> (\<exists>res2. clean_customer_data [cleaned_header, row_alice_cleaned] = Inr res2
         \<and> output_file res2 = [cleaned_header, row_alice_cleaned]
         \<and> reject_file res2 = None \<and> log_rejected res2 = 0)"
  using clean_idempotent [OF sample_clean_run] sample_clean_run
  by (simp add: sample_clean_result_def)

text \<open>
  C4. On an input made of a header and data rows of seven fields each, the run succeeds
  and the cleaned and the rejected rows together are as many as the data rows; the three
  logged counts are these numbers.
\<close>

theorem clean_counts_partition:
  assumes "\<forall>r\<in>set data. length r = 7"
  shows "\<exists>res. clean_customer_data (header # data) = Inr res
           \<and> length (cleaned_rows_of res) + length (rejected_rows_of res) = length data
           \<and> log_output res = length (cleaned_rows_of res)
           \<and> log_rejected res = length (rejected_rows_of res)
           \<and> log_input res = length data"
  using sum_length_filter_compl [of phone_ok data]
  by (auto simp: clean_customer_data_eq [OF assms] cleaned_rows_of_def rejected_rows_of_def)

theorem clean_counts_partition_witness:
  "list_all (\<lambda>r. length r = 7) [row_alice, row_short_phone]
   \<and> (\<exists>res. clean_customer_data sample_customers = Inr res
         \<and> length (cleaned_rows_of res) + length (rejected_rows_of res) = 2
         \<and> log_output res = 1 \<and> log_rejected res = 1 \<and> log_input res = 2)"
  using clean_counts_partition [OF sample_rows_seven, of customers_header] sample_clean_run
  by (simp add: sample_customers_def sample_clean_result_def row_alice_def row_short_phone_def)

text \<open>
  C8. In the cleaned row of every row that passes the phone validation, the registration
  date (after the substitution of the default) is rewritten when it has exactly eight
  characters, all digits: its first four characters, a hyphen, the next two, a hyphen, the
  last two. A registration date of any other shape is copied unchanged.
\<close>

theorem registration_date_rewritten:
  assumes "\<forall>r\<in>set data. length r = 7"
  shows "\<exists>res. clean_customer_data (header # data) = Inr res
           \<and> map (\<lambda>r. r ! 4) (cleaned_rows_of res) =
               map (\<lambda>r. let d = reg_date_of r
                         in if length d = 8 \<and> isdigit d
                            then [d ! 0, d ! 1, d ! 2, d ! 3, 45, d ! 4, d ! 5, 45, d ! 6, d ! 7]
                            else d)
                   (filter phone_ok data)"
proof -
  have iso: "iso_date d = [d ! 0, d ! 1, d ! 2, d ! 3, 45, d ! 4, d ! 5, 45, d ! 6, d ! 7]"
    if "length d = 8" for d :: pystr
  proof -
    from that obtain a b c e f g h i where "d = [a, b, c, e, f, g, h, i]"
      by (auto simp: length_Suc_conv numeral_eq_Suc)
    then show ?thesis
      by (simp add: iso_date_def slice_def lit_def)
  qed
  show ?thesis
    by (simp add: clean_customer_data_eq [OF assms] cleaned_rows_of_def clean_row_def
        Let_def iso)
qed

theorem registration_date_rewritten_witness:
  "list_all (\<lambda>r. length r = 7) [row_alice, row_arabic_phone]
   \<and> (\<exists>res. clean_customer_data [customers_header, row_alice, row_arabic_phone] = Inr res
         \<and> map (\<lambda>r. r ! 4) (cleaned_rows_of res) = [lit ''2024-01-01'', lit ''2024-01-03''])"
proof -
  have seven: "\<forall>r\<in>set [row_alice, row_arabic_phone]. length r = 7"
    by (simp add: row_alice_def row_arabic_phone_def)
  have ok: "phone_ok row_alice" "phone_ok row_arabic_phone"
    by (simp_all add: phone_ok_def phone_of_def or_default_def eval_strings row_alice_def
        row_arabic_phone_def)
  have dates: "reg_date_of row_alice = lit ''20240101''"
    "reg_date_of row_arabic_phone = lit ''2024-01-03''"
    by (simp_all add: reg_date_of_def or_default_def lit_def row_alice_def row_arabic_phone_def)
  have dig: "isdigit (lit ''20240101'')"
    by (simp add: eval_strings)
  from registration_date_rewritten [OF seven, of customers_header] seven
  show ?thesis
    by (simp add: ok dates dig) (simp add: lit_def)
qed

text \<open>
  C9. On an input whose data rows have seven fields each, the run succeeds whatever the
  phone numbers are. Every row whose phone number, after the substitution of the default,
  fails the validation is in the rejected rows as it was read, and is not among the
  cleaned rows; nothing else is rejected; and the reject file is written, under the
  header of the input, exactly when some row was rejected.
\<close>

theorem invalid_phone_rejected:
  assumes "\<forall>r\<in>set data. length r = 7"
  shows "\<exists>res. clean_customer_data (header # data) = Inr res
           \<and> (\<forall>r\<in>set data. \<not> phone_ok r \<longrightarrow>
                 r \<in> set (rejected_rows_of res) \<and> r \<notin> set (cleaned_rows_of res))
           \<and> set (rejected_rows_of res) = {r \<in> set data. \<not> phone_ok r}
           \<and> (reject_file res = None \<longleftrightarrow> (\<forall>r\<in>set data. phone_ok r))
           \<and> (\<forall>f. reject_file res = Some f \<longrightarrow> hd f = header)"
proof -
  have absent: "r \<notin> set (map clean_row (filter phone_ok data))" if "\<not> phone_ok r" for r
    using that phone_ok_clean_row by auto
  show ?thesis
    using absent
    by (auto simp: clean_customer_data_eq [OF assms] cleaned_rows_of_def rejected_rows_of_def
        filter_empty_conv)
qed

theorem invalid_phone_rejected_witness:
  "list_all (\<lambda>r. length r = 7) [row_alice, row_short_phone]
   \<and> \<not> phone_ok row_short_phone
   \<and> (\<exists>res. clean_customer_data sample_customers = Inr res
         \<and> row_short_phone \<in> set (rejected_rows_of res)
         \<and> row_short_phone \<notin> set (cleaned_rows_of res)
         \<and> reject_file res = Some [customers_header, row_short_phone])"
proof -
  have bad: "\<not> phone_ok row_short_phone"
    by (simp add: phone_ok_def phone_of_def or_default_def lit_def row_short_phone_def)
  from invalid_phone_rejected [OF sample_rows_seven, of customers_header] bad sample_clean_run
  show ?thesis
    by (simp add: sample_customers_def sample_clean_result_def row_alice_def
        row_short_phone_def)
qed

text \<open>
  C10. Both outputs keep the order of the input: the cleaned rows are the cleaned forms of
  the rows that pass the phone validation, in the order of the input, and the rejected
  rows are the other rows, in the order of the input.
\<close>

theorem clean_preserves_order:
  assumes "\<forall>r\<in>set data. length r = 7"
  shows "\<exists>res. clean_customer_data (header # data) = Inr res
           \<and> cleaned_rows_of res = map clean_row (filter phone_ok data)
           \<and> rejected_rows_of res = filter (\<lambda>r. \<not> phone_ok r) data
           \<and> subseq (rejected_rows_of res) data"
  by (simp add: clean_customer_data_eq [OF assms] cleaned_rows_of_def rejected_rows_of_def)

theorem clean_preserves_order_witness:
  "list_all (\<lambda>r. length r = 7)
     [row_alice, row_short_phone, row_arabic_phone, row_letters_phone]
   \<and> (\<exists>res. clean_customer_data interleaved_customers = Inr res
         \<and> cleaned_rows_of res = [row_alice_cleaned, row_arabic_phone]
         \<and> rejected_rows_of res = [row_short_phone, row_letters_phone])"
proof -
  have seven: "\<forall>r\<in>set [row_alice, row_short_phone, row_arabic_phone, row_letters_phone].
                 length r = 7"
    by (simp add: row_alice_def row_short_phone_def row_arabic_phone_def row_letters_phone_def)
  have run: "clean_customer_data interleaved_customers =
     Inr \<lparr>output_file = [cleaned_header, row_alice_cleaned, row_arabic_phone],
          reject_file = Some [customers_header, row_short_phone, row_letters_phone],
          log_input = 4, log_output = 2, log_rejected = 2\<rparr>"
    by (simp add: interleaved_customers_def clean_customer_data_def or_default_def eval_strings
        Let_def customers_header_def row_alice_def row_alice_cleaned_def row_short_phone_def
        row_arabic_phone_def row_letters_phone_def)
  from clean_preserves_order [OF seven, of customers_header] seven run
  show ?thesis
    by (simp add: interleaved_customers_def cleaned_rows_of_def rejected_rows_of_def)
qed

section \<open>Properties of the deduplicator\<close>

lemma dedup_loop_acc: "dedup_loop xs seen acc = acc @ dedup_loop xs seen []"
proof (induction xs arbitrary: seen acc)
  case Nil
  show ?case by simp
next
  case (Cons x xs)
  show ?case
    using Cons.IH [of "insert x seen" "acc @ [x]"] Cons.IH [of "insert x seen" "[x]"]
      Cons.IH [of seen acc]
    by simp
qed

lemma dedup_loop_Cons:
  "dedup_loop (x # xs) seen [] =
     (if x \<in> seen then dedup_loop xs seen [] else x # dedup_loop xs (insert x seen) [])"
  using dedup_loop_acc [of xs "insert x seen" "[x]"] by simp

lemma set_dedup_loop: "set (dedup_loop xs seen []) = set xs - seen"
  by (induction xs arbitrary: seen) (auto simp: dedup_loop_Cons simp del: dedup_loop.simps(2))

lemma distinct_dedup_loop: "distinct (dedup_loop xs seen [])"
  by (induction xs arbitrary: seen)
     (auto simp: dedup_loop_Cons set_dedup_loop simp del: dedup_loop.simps(2))

lemma subseq_dedup_loop: "subseq (dedup_loop xs seen []) xs"
  by (induction xs arbitrary: seen) (auto simp: dedup_loop_Cons simp del: dedup_loop.simps(2))

lemma dedup_loop_first_seen:
  "dedup_loop xs seen [] =
     map (\<lambda>i. xs ! i) (filter (\<lambda>i. xs ! i \<notin> seen \<union> set (take i xs)) [0..<length xs])"
proof (induction xs arbitrary: seen)
  case Nil
  show ?case by simp
next
  case (Cons x xs)
  have upt: "[0..<length (x # xs)] = 0 # map Suc [0..<length xs]"
    by (simp add: upt_conv_Cons map_Suc_upt del: upt_Suc)
  show ?case
    unfolding upt dedup_loop_Cons
    by (auto simp: filter_map o_def Cons.IH intro!: filter_cong arg_cong [where f = "map _"])
qed

lemma dedup_loop_snoc:
  "dedup_loop (xs @ [x]) seen [] =
     (if x \<in> seen \<union> set xs then dedup_loop xs seen [] else dedup_loop xs seen [] @ [x])"
proof (induction xs arbitrary: seen)
  case Nil
  show ?case by simp
next
  case (Cons y ys)
  show ?case
    using Cons.IH [of seen] Cons.IH [of "insert y seen"]
    by (auto simp: dedup_loop_Cons simp del: dedup_loop.simps(2))
qed

lemma first_seen_dedup: "first_seen xs = dedup_loop xs {} []"
  using dedup_loop_first_seen [of xs "{}"] by (simp add: first_seen_def)

text \<open>
  C5. The deduplicated file holds the distinct lines of the input, each once, at the place
  of its first occurrence: it is a subsequence of the input, has no two equal elements and
  the same elements as the input. Lines are compared as they are, newline included. The
  three counts are the lengths of input and output and their difference.
\<close>

theorem dedup_first_seen:
  "deduped_file (deduplicate_usage_data lines) = first_seen lines
   \<and> subseq (deduped_file (deduplicate_usage_data lines)) lines
   \<and> distinct (deduped_file (deduplicate_usage_data lines))
   \<and> set (deduped_file (deduplicate_usage_data lines)) = set lines
   \<and> input_count (deduplicate_usage_data lines) = int (length lines)
   \<and> output_count (deduplicate_usage_data lines)
       = int (length (deduped_file (deduplicate_usage_data lines)))
   \<and> duplicates_removed (deduplicate_usage_data lines)
       = input_count (deduplicate_usage_data lines) - output_count (deduplicate_usage_data lines)"
proof -
  have dfile: "deduped_file (deduplicate_usage_data lines) = dedup_loop lines {} []"
    by (simp add: deduplicate_usage_data_def Let_def)
  have counts: "input_count (deduplicate_usage_data lines) = int (length lines)"
    "output_count (deduplicate_usage_data lines) = int (length (dedup_loop lines {} []))"
    "duplicates_removed (deduplicate_usage_data lines)
       = input_count (deduplicate_usage_data lines) - output_count (deduplicate_usage_data lines)"
    by (simp_all add: deduplicate_usage_data_def Let_def)
  show ?thesis
    unfolding dfile using counts subseq_dedup_loop [of lines "{}"]
      distinct_dedup_loop [of lines "{}"] set_dedup_loop [of lines "{}"]
    by (simp add: first_seen_dedup del: dedup_loop.simps)
qed

theorem dedup_first_seen_witness:
  "deduped_file (deduplicate_usage_data sample_usage) = [lit ''a'' @ nl, lit ''b'' @ nl]
   \<and> first_seen sample_usage = [lit ''a'' @ nl, lit ''b'' @ nl]
   \<and> input_count (deduplicate_usage_data sample_usage) = 3
   \<and> output_count (deduplicate_usage_data sample_usage) = 2
   \<and> duplicates_removed (deduplicate_usage_data sample_usage) = 1"
proof -
  have run: "deduplicate_usage_data sample_usage =
     \<lparr>deduped_file = [lit ''a'' @ nl, lit ''b'' @ nl], input_count = 3, output_count = 2,
      duplicates_removed = 1\<rparr>"
    by (simp add: deduplicate_usage_data_def sample_usage_def Let_def lit_def nl_def)
  from dedup_first_seen [of sample_usage] show ?thesis
    by (simp add: run)
qed

section \<open>Properties of the aggregator\<close>

lemma map_of_dict_set: "map_of (dict_set d k v) = (map_of d)(k \<mapsto> v)"
  by (induction d k v rule: dict_set.induct) auto

lemma keys_dict_set:
  "map fst (dict_set d k v) = (if k \<in> fst ` set d then map fst d else map fst d @ [k])"
  by (induction d k v rule: dict_set.induct) auto

lemma billing_loop_append:
  "billing_loop A (xs @ ys) st =
     (case billing_loop A xs st of Inl e \<Rightarrow> Inl e | Inr st' \<Rightarrow> billing_loop A ys st')"
  by (induction xs arbitrary: st) (auto simp: Let_def split: option.splits)

lemma row_amount_read: "row_amount A row = amount_read A (row ! 1)"
  by (simp add: row_amount_def amount_read_def)

lemma amounts_of_snoc:
  "amount_read A (row ! 1) = Some a \<Longrightarrow>
   amounts_of A c (data @ [row]) = amounts_of A c data @ (if row ! 0 = c then [a] else [])"
  by (induction data) (simp_all split: option.splits)

lemma dates_of_snoc:
  "dates_of c (data @ [row]) = dates_of c data @ (if row ! 0 = c then [row ! 2] else [])"
  by (simp add: dates_of_def)

lemma length_amounts_of:
  "\<forall>row\<in>set data. amount_read A (row ! 1) \<noteq> None \<Longrightarrow>
   length (amounts_of A c data) = length (rows_of c data)"
  by (induction data) (auto simp: rows_of_def)

lemma rows_of_empty_iff: "rows_of c data = [] \<longleftrightarrow> c \<notin> set (ids_of data)"
  by (induction data) (auto simp: rows_of_def ids_of_def)

lemma amounts_of_empty_iff:
  assumes "\<forall>row\<in>set data. amount_read A (row ! 1) \<noteq> None"
  shows "amounts_of A c data = [] \<longleftrightarrow> c \<notin> set (ids_of data)"
  using length_amounts_of [OF assms, of c] rows_of_empty_iff [of c data]
  by (metis length_0_conv)

lemma dates_of_empty_iff: "dates_of c data = [] \<longleftrightarrow> c \<notin> set (ids_of data)"
  by (induction data) (auto simp: dates_of_def ids_of_def)

lemma kept_min_snoc:
  "kept_min A (xs @ [a]) =
     (if xs = [] then a else if f_less A a (kept_min A xs) then a else kept_min A xs)"
  by (cases xs) (simp_all add: kept_min_def)

lemma kept_max_snoc:
  "kept_max A (xs @ [a]) =
     (if xs = [] then a else if f_less A (kept_max A xs) a then a else kept_max A xs)"
  by (cases xs) (simp_all add: kept_max_def)

lemma kept_min_mem: "xs \<noteq> [] \<Longrightarrow> kept_min A xs \<in> set xs"
  by (induction xs rule: rev_induct) (auto simp: kept_min_snoc)

lemma kept_max_mem: "xs \<noteq> [] \<Longrightarrow> kept_max A xs \<in> set xs"
  by (induction xs rule: rev_induct) (auto simp: kept_max_snoc)

lemma comparable_subset: "set ys \<subseteq> set xs \<Longrightarrow> comparable A xs \<Longrightarrow> comparable A ys"
  unfolding comparable_def by (intro conjI ballI impI) blast+

lemma comparable_butlast: "comparable A (xs @ [a]) \<Longrightarrow> comparable A xs"
  by (rule comparable_subset) auto

lemma kept_min_least:
  "comparable A xs \<Longrightarrow> \<forall>x\<in>set xs. \<not> f_less A x (kept_min A xs)"
proof (induction xs rule: rev_induct)
  case Nil
  show ?case by simp
next
  case (snoc a xs)
  have a: "a \<in> set (xs @ [a])" by simp
  from snoc.prems a have irr: "\<not> f_less A a a"
    unfolding comparable_def by blast
  from snoc.prems have tr: "f_less A x z"
    if "x \<in> set (xs @ [a])" "y \<in> set (xs @ [a])" "z \<in> set (xs @ [a])"
      "f_less A x y" "f_less A y z" for x y z
    using that unfolding comparable_def by blast
  have ih: "\<forall>x\<in>set xs. \<not> f_less A x (kept_min A xs)"
    using snoc.IH comparable_butlast [OF snoc.prems] by simp
  show ?case
  proof (cases "xs = []")
    case True
    with irr show ?thesis by (simp add: kept_min_def)
  next
    case False
    then have m: "kept_min A xs \<in> set xs" by (rule kept_min_mem)
    show ?thesis
    proof (cases "f_less A a (kept_min A xs)")
      case True
      have "\<not> f_less A x a" if "x \<in> set xs" for x
      proof
        assume "f_less A x a"
        with True that m have "f_less A x (kept_min A xs)"
          by (intro tr [of x a "kept_min A xs"]) auto
        with ih that show False by simp
      qed
      with True False irr show ?thesis by (simp add: kept_min_snoc)
    next
      case no: False
      with False ih show ?thesis by (simp add: kept_min_snoc)
    qed
  qed
qed

lemma kept_max_greatest:
  "comparable A xs \<Longrightarrow> \<forall>x\<in>set xs. \<not> f_less A (kept_max A xs) x"
proof (induction xs rule: rev_induct)
  case Nil
  show ?case by simp
next
  case (snoc a xs)
  have a: "a \<in> set (xs @ [a])" by simp
  from snoc.prems a have irr: "\<not> f_less A a a"
    unfolding comparable_def by blast
  from snoc.prems have tr: "f_less A x z"
    if "x \<in> set (xs @ [a])" "y \<in> set (xs @ [a])" "z \<in> set (xs @ [a])"
      "f_less A x y" "f_less A y z" for x y z
    using that unfolding comparable_def by blast
  have ih: "\<forall>x\<in>set xs. \<not> f_less A (kept_max A xs) x"
    using snoc.IH comparable_butlast [OF snoc.prems] by simp
  show ?case
  proof (cases "xs = []")
    case True
    with irr show ?thesis by (simp add: kept_max_def)
  next
    case False
    then have m: "kept_max A xs \<in> set xs" by (rule kept_max_mem)
    show ?thesis
    proof (cases "f_less A (kept_max A xs) a")
      case True
      have "\<not> f_less A a x" if "x \<in> set xs" for x
      proof
        assume "f_less A a x"
        with True that m have "f_less A (kept_max A xs) x"
          by (intro tr [of "kept_max A xs" a x]) auto
        with ih that show False by simp
      qed
      with True False irr show ?thesis by (simp add: kept_max_snoc)
    next
      case no: False
      with False ih show ?thesis by (simp add: kept_max_snoc)
    qed
  qed
qed

lemma kept_bounds:
  assumes "comparable A xs" and "xs \<noteq> []"
  shows "(\<forall>x\<in>set xs. f_le A (kept_min A xs) x) \<and> (\<forall>x\<in>set xs. f_le A x (kept_max A xs))"
proof -
  from assms(1) have le: "\<And>x y. x \<in> set xs \<Longrightarrow> y \<in> set xs \<Longrightarrow> f_le A x y \<longleftrightarrow> \<not> f_less A y x"
    unfolding comparable_def by blast
  from kept_min_mem [OF assms(2)] kept_max_mem [OF assms(2)]
    kept_min_least [OF assms(1)] kept_max_greatest [OF assms(1)]
  show ?thesis by (simp add: le)
qed

lemma Max_snoc: "Max (set (xs @ [a])) = (if xs = [] then a else max (Max (set xs)) a)"
  by (auto simp: Max_insert max.commute)

lemma billing_step:
  assumes inv: "dicts_after A data st"
    and valid: "\<forall>r\<in>set data. amount_read A (r ! 1) \<noteq> None"
    and len: "3 \<le> length row" and amt: "amount_read A (row ! 1) = Some a"
  shows "\<exists>st'. billing_loop A [row] st = Inr st' \<and> dicts_after A (data @ [row]) st'"
proof -
  define k where "k = row ! 0"
  define st' where "st' =
     \<lparr>totals = dict_set (totals st) k (f_add A (dict_get (totals st) k (f_zero A)) a),
      counts = dict_set (counts st) k (dict_get (counts st) k 0 + 1),
      mins = (if (case map_of (mins st) k of None \<Rightarrow> True | Some m \<Rightarrow> f_less A a m)
              then dict_set (mins st) k a else mins st),
      maxs = (if (case map_of (maxs st) k of None \<Rightarrow> True | Some m \<Rightarrow> f_less A m a)
              then dict_set (maxs st) k a else maxs st),
      last_dates = (if (case map_of (last_dates st) k of None \<Rightarrow> True | Some d \<Rightarrow> row ! 2 > d)
                    then dict_set (last_dates st) k (row ! 2) else last_dates st)\<rparr>"
  have run: "billing_loop A [row] st = Inr st'"
    using len amt by (simp add: st'_def k_def Let_def row_amount_read)
  have ids: "set (ids_of (data @ [row])) = insert k (set (ids_of data))"
    by (simp add: ids_of_def k_def)
  have am: "amounts_of A c (data @ [row]) = amounts_of A c data @ (if k = c then [a] else [])"
    for c using amounts_of_snoc [OF amt] by (simp add: k_def)
  have rw: "rows_of c (data @ [row]) = rows_of c data @ (if k = c then [row] else [])" for c
    by (simp add: rows_of_def k_def)
  have dt: "dates_of c (data @ [row]) = dates_of c data @ (if k = c then [row ! 2] else [])"
    for c using dates_of_snoc by (simp add: k_def)
  have ae: "amounts_of A c data = [] \<longleftrightarrow> c \<notin> set (ids_of data)" for c
    using amounts_of_empty_iff [OF valid] .
  have de: "dates_of c data = [] \<longleftrightarrow> c \<notin> set (ids_of data)" for c
    using dates_of_empty_iff .
  from inv have i1: "map fst (totals st) = dedup_loop (ids_of data) {} []"
    and i2: "\<And>c. map_of (totals st) c =
            (if c \<in> set (ids_of data)
             then Some (foldl (f_add A) (f_zero A) (amounts_of A c data)) else None)"
    and i3: "\<And>c. map_of (counts st) c =
            (if c \<in> set (ids_of data) then Some (int (length (rows_of c data))) else None)"
    and i4: "\<And>c. map_of (mins st) c =
            (if c \<in> set (ids_of data) then Some (kept_min A (amounts_of A c data)) else None)"
    and i5: "\<And>c. map_of (maxs st) c =
            (if c \<in> set (ids_of data) then Some (kept_max A (amounts_of A c data)) else None)"
    and i6: "\<And>c. map_of (last_dates st) c =
            (if c \<in> set (ids_of data) then Some (Max (set (dates_of c data))) else None)"
    unfolding dicts_after_def by blast+
  have keys: "fst ` set (totals st) = set (ids_of data)"
    using arg_cong [OF i1, of set] set_dedup_loop [of "ids_of data" "{}"] by simp
  have k: "map fst (totals st') = dedup_loop (ids_of (data @ [row])) {} []"
    using i1 keys by (simp add: st'_def keys_dict_set ids_of_def k_def dedup_loop_snoc
        del: dedup_loop.simps)
  have get_t: "dict_get (totals st) k (f_zero A) = foldl (f_add A) (f_zero A) (amounts_of A k data)"
    using ae [of k] by (auto simp: dict_get_def i2)
  have t: "map_of (totals st') c =
            (if c \<in> set (ids_of (data @ [row]))
             then Some (foldl (f_add A) (f_zero A) (amounts_of A c (data @ [row]))) else None)" for c
    by (simp add: st'_def map_of_dict_set get_t ids am i2)
  have get_n: "dict_get (counts st) k 0 = int (length (rows_of k data))"
    using rows_of_empty_iff [of k data] by (auto simp: dict_get_def i3)
  have n: "map_of (counts st') c =
            (if c \<in> set (ids_of (data @ [row]))
             then Some (int (length (rows_of c (data @ [row])))) else None)" for c
    by (simp add: st'_def map_of_dict_set get_n ids rw i3)
  define M where "M = kept_min A (amounts_of A k data)"
  have i4k: "map_of (mins st) k = (if k \<in> set (ids_of data) then Some M else None)"
    by (simp add: i4 M_def)
  have Mk: "kept_min A (amounts_of A k data @ [a])
              = (if k \<in> set (ids_of data) then (if f_less A a M then a else M) else a)"
    using ae [of k] by (simp add: kept_min_snoc M_def)
  have mins': "map_of (mins st') c = (if c = k then Some (kept_min A (amounts_of A k data @ [a]))
                 else map_of (mins st) c)" for c
    unfolding Mk by (auto simp: st'_def map_of_dict_set i4k)
  have mn: "map_of (mins st') c =
            (if c \<in> set (ids_of (data @ [row]))
             then Some (kept_min A (amounts_of A c (data @ [row]))) else None)" for c
    by (simp add: mins' ids am i4)
  define N where "N = kept_max A (amounts_of A k data)"
  have i5k: "map_of (maxs st) k = (if k \<in> set (ids_of data) then Some N else None)"
    by (simp add: i5 N_def)
  have Nk: "kept_max A (amounts_of A k data @ [a])
              = (if k \<in> set (ids_of data) then (if f_less A N a then a else N) else a)"
    using ae [of k] by (simp add: kept_max_snoc N_def)
  have maxs': "map_of (maxs st') c = (if c = k then Some (kept_max A (amounts_of A k data @ [a]))
                 else map_of (maxs st) c)" for c
    unfolding Nk by (auto simp: st'_def map_of_dict_set i5k)
  have mx: "map_of (maxs st') c =
            (if c \<in> set (ids_of (data @ [row]))
             then Some (kept_max A (amounts_of A c (data @ [row]))) else None)" for c
    by (simp add: maxs' ids am i5)
  define L where "L = Max (set (dates_of k data))"
  have i6k: "map_of (last_dates st) k = (if k \<in> set (ids_of data) then Some L else None)"
    by (simp add: i6 L_def)
  have Lk: "Max (set (dates_of k data @ [row ! 2]))
              = (if k \<in> set (ids_of data) then max L (row ! 2) else row ! 2)"
    using de [of k] by (simp add: Max_snoc L_def del: set_append)
  have lds': "map_of (last_dates st') c =
                (if c = k then Some (Max (set (dates_of k data @ [row ! 2])))
                 else map_of (last_dates st) c)" for c
    unfolding Lk by (auto simp: st'_def map_of_dict_set i6k max_def)
  have ld: "map_of (last_dates st') c =
            (if c \<in> set (ids_of (data @ [row]))
             then Some (Max (set (dates_of c (data @ [row])))) else None)" for c
    by (simp add: lds' ids dt i6 del: set_append)
  show ?thesis
    using run k t n mn mx ld unfolding dicts_after_def [of A "data @ [row]"] by blast
qed

lemma billing_loop_dicts:
  assumes "\<forall>row\<in>set data. 3 \<le> length row \<and> amount_read A (row ! 1) \<noteq> None"
  shows "\<exists>st. billing_loop A data no_dicts = Inr st \<and> dicts_after A data st"
  using assms
proof (induction data rule: rev_induct)
  case Nil
  show ?case by (simp add: dicts_after_def no_dicts_def ids_of_def)
next
  case (snoc row data)
  then obtain st where st: "billing_loop A data no_dicts = Inr st" "dicts_after A data st"
    by auto
  from snoc.prems obtain a where a: "amount_read A (row ! 1) = Some a" and len: "3 \<le> length row"
    by auto
  from snoc.prems have valid: "\<forall>r\<in>set data. amount_read A (r ! 1) \<noteq> None" by simp
  from billing_step [OF st(2) valid len a] st(1) show ?case
    by (simp add: billing_loop_append)
qed

lemma counts_sum:
  assumes "distinct ks" and "set (ids_of data) \<subseteq> set ks"
  shows "(\<Sum>c\<leftarrow>ks. int (length (rows_of c data))) = int (length data)"
  using assms(2)
proof (induction data)
  case Nil
  show ?case by (simp add: rows_of_def)
next
  case (Cons row data)
  then have k: "row ! 0 \<in> set ks" and rest: "set (ids_of data) \<subseteq> set ks"
    by (auto simp: ids_of_def)
  have one: "(\<Sum>c\<leftarrow>ks. if row ! 0 = c then 1 else 0) = (1::int)"
    using assms(1) k by (simp add: sum_list_distinct_conv_sum_set)
  have "(\<Sum>c\<leftarrow>ks. int (length (rows_of c (row # data))))
        = (\<Sum>c\<leftarrow>ks. (if row ! 0 = c then 1 else 0) + int (length (rows_of c data)))"
    by (intro arg_cong [where f = sum_list] map_cong) (auto simp: rows_of_def)
  also have "\<dots> = 1 + int (length data)"
    using one Cons.IH [OF rest] by (simp add: sum_list_addf)
  finally show ?case by simp
qed

lemma summarise_dicts:
  assumes "dicts_after A data st" and "set ks \<subseteq> set (ids_of data)"
  shows "summarise A st ks = Inr (map (summary_for A data) ks)"
  using assms(2)
proof (induction ks)
  case Nil
  show ?case by simp
next
  case (Cons c ks)
  then have c: "c \<in> set (ids_of data)" and ks: "set ks \<subseteq> set (ids_of data)"
    by auto
  have pos: "0 < int (length (rows_of c data))"
    using c rows_of_empty_iff [of c data] by auto
  from assms(1) c have look:
    "map_of (totals st) c = Some (foldl (f_add A) (f_zero A) (amounts_of A c data))"
    "map_of (counts st) c = Some (int (length (rows_of c data)))"
    "map_of (mins st) c = Some (kept_min A (amounts_of A c data))"
    "map_of (maxs st) c = Some (kept_max A (amounts_of A c data))"
    "map_of (last_dates st) c = Some (Max (set (dates_of c data)))"
    unfolding dicts_after_def by simp_all
  show ?case
    using pos by (simp add: look Cons.IH [OF ks] summary_for_def)
qed

lemma aggregate_eq:
  assumes "valid_billing A lines"
  shows "aggregate_billing_data A lines =
     Inr \<lparr>b_summaries =
            map (summary_for A (billing_rows lines)) (first_seen (ids_of (billing_rows lines))),
          b_file = aggregated_header #
            map (summary_line A)
              (map (summary_for A (billing_rows lines))
                 (first_seen (ids_of (billing_rows lines))))\<rparr>"
proof -
  let ?data = "billing_rows lines"
  from assms have ne: "lines \<noteq> []"
    and v: "\<forall>row\<in>set ?data. 3 \<le> length row \<and> amount_read A (row ! 1) \<noteq> None"
    by (auto simp: valid_billing_def list_all_iff)
  from billing_loop_dicts [OF v] obtain st
    where st: "billing_loop A ?data no_dicts = Inr st" "dicts_after A ?data st"
    by blast
  have keys: "map fst (totals st) = first_seen (ids_of ?data)"
    using st(2) by (simp add: dicts_after_def first_seen_dedup)
  have sub: "set (first_seen (ids_of ?data)) \<subseteq> set (ids_of ?data)"
    by (simp add: first_seen_dedup set_dedup_loop)
  show ?thesis
    using summarise_dicts [OF st(2) sub]
    by (simp add: aggregate_billing_data_def ne st(1) keys)
qed

lemma filter_key_map:
  assumes "distinct ks" and "c \<in> set ks" and "\<And>k. g (f k) = k"
  shows "filter (\<lambda>s. g s = c) (map f ks) = [f c]"
  using assms(1,2)
proof (induction ks)
  case Nil
  then show ?case by simp
next
  case (Cons k ks)
  have none: "filter (\<lambda>s. g s = c) (map f ks) = []" if "c \<notin> set ks"
    using that by (auto simp: filter_empty_conv assms(3))
  show ?case
  proof (cases "c = k")
    case True
    with Cons.prems have "c \<notin> set ks" by simp
    then have "filter (\<lambda>s. g s = c) (map f ks) = []" by (rule none)
    with True show ?thesis by (simp add: assms(3))
  next
    case False
    with Cons show ?thesis by (simp add: assms(3))
  qed
qed

lemma sample_billing_rows:
  "billing_rows sample_billing =
     [[lit ''C1'', lit ''10.0'', lit ''2024-01-05''],
      [lit ''C2'', lit ''NULL'', lit ''2024-01-07''],
      [lit ''C1'', lit ''20.0'', lit ''2024-01-10'']]"
  by (simp add: billing_rows_def sample_billing_def strip_def isspace_char_def in_ranges_def
      space_ranges_def lit_def nl_def)

lemma sample_amounts:
  "amount_read sample_arith (lit ''10.0'') = Some (Val 10)"
  "amount_read sample_arith (lit ''NULL'') = Some (Val 0)"
  "amount_read sample_arith (lit ''20.0'') = Some (Val 20)"
  "amount_read sample_arith (lit ''nan'') = Some NaN"
  "amount_read sample_arith (lit ''7.0'') = Some (Val 7)"
  by (simp_all add: amount_read_def sample_arith_def sample_parse_def dec_value_def
      ascii_digit_def lit_def Let_def)

lemma sample_billing_valid: "valid_billing sample_arith sample_billing"
  unfolding valid_billing_def sample_billing_rows
  by (simp add: sample_amounts) (simp add: sample_billing_def)

lemma sample_ops:
  "f_zero sample_arith = Val 0" "f_add sample_arith = sample_add"
  "f_div sample_arith = sample_div" "f_less sample_arith = sample_less"
  "f_le sample_arith = sample_le" "f_str sample_arith = sample_str"
  "f_fix2 sample_arith = sample_fix2" "f_sum sample_arith = foldl sample_add (Val 0)"
  by (simp_all add: sample_arith_def)

lemma sample_billing_run:
  "aggregate_billing_data sample_arith sample_billing =
     Inr \<lparr>b_summaries = sample_summaries,
          b_file = aggregated_header # map (summary_line sample_arith) sample_summaries\<rparr>"
proof -
  have ne: "sample_billing \<noteq> []"
    by (simp add: sample_billing_def)
  have loop: "billing_loop sample_arith (billing_rows sample_billing) no_dicts =
      Inr \<lparr>totals = [(lit ''C1'', Val 30), (lit ''C2'', Val 0)],
           counts = [(lit ''C1'', 2), (lit ''C2'', 1)],
           mins = [(lit ''C1'', Val 10), (lit ''C2'', Val 0)],
           maxs = [(lit ''C1'', Val 20), (lit ''C2'', Val 0)],
           last_dates = [(lit ''C1'', lit ''2024-01-10''), (lit ''C2'', lit ''2024-01-07'')]\<rparr>"
    unfolding sample_billing_rows
    by (simp add: row_amount_read sample_amounts no_dicts_def dict_get_def Let_def sample_ops
        sample_add_def sample_less_def)
       (simp add: lit_def)
  show ?thesis
    unfolding aggregate_billing_data_def loop
    by (simp add: ne sample_summaries_def sample_ops sample_div_def) (simp add: lit_def)
qed

lemma floor_numeral_div: "\<lfloor>numeral a / numeral b :: rat\<rfloor> = numeral a div numeral b"
  using floor_divide_of_int_eq [of "numeral a" "numeral b", where ?'a = rat] by simp

lemma sample_prints:
  "sample_str (Val (201 / 2)) = lit ''100.5''"
  "sample_str (Val (241 / 2)) = lit ''120.5''"
  "sample_str (Val 0) = lit ''0.0''"
  "sample_str (Val 10) = lit ''10.0''"
  "sample_str (Val 15) = lit ''15.0''"
  "sample_str (Val 20) = lit ''20.0''"
  "sample_str (Val 30) = lit ''30.0''"
  "sample_str NaN = lit ''nan''"
  "sample_fix2 (Val 30) = lit ''30.00''"
  by (simp_all add: sample_str_def sample_fix2_def str_int_def str_nat.simps lit_def
      floor_numeral_div)

lemma sample_ints: "str_int 1 = lit ''1''" "str_int 2 = lit ''2''"
  by (simp_all add: str_int_def str_nat.simps lit_def)

lemma sample_file:
  "map (summary_line sample_arith) sample_summaries =
     [lit ''C1|30.0|15.0|2|10.0|20.0|2024-01-10'' @ nl,
      lit ''C2|0.0|0.0|1|0.0|0.0|2024-01-07'' @ nl]"
  by (simp add: sample_summaries_def summary_line_def num_str_def sample_ops sample_prints
      sample_ints bar_def)
     (simp add: lit_def)

lemma nan_billing_rows:
  "billing_rows nan_billing =
     [[lit ''C2'', lit ''nan'', lit ''2024-01-01''],
      [lit ''C2'', lit ''7.0'', lit ''2024-01-02'']]"
  by (simp add: billing_rows_def nan_billing_def strip_def isspace_char_def in_ranges_def
      space_ranges_def lit_def nl_def)

lemma nan_billing_run:
  "aggregate_billing_data sample_arith nan_billing =
     Inr \<lparr>b_summaries = [nan_summary],
          b_file = [aggregated_header, lit ''C2|nan|nan|2|nan|nan|2024-01-02'' @ nl]\<rparr>"
proof -
  have ne: "nan_billing \<noteq> []"
    by (simp add: nan_billing_def)
  have loop: "billing_loop sample_arith (billing_rows nan_billing) no_dicts =
      Inr \<lparr>totals = [(lit ''C2'', NaN)], counts = [(lit ''C2'', 2)],
           mins = [(lit ''C2'', NaN)], maxs = [(lit ''C2'', NaN)],
           last_dates = [(lit ''C2'', lit ''2024-01-02'')]\<rparr>"
    unfolding nan_billing_rows
    by (simp add: row_amount_read sample_amounts no_dicts_def dict_get_def Let_def sample_ops
        sample_add_def sample_less_def)
       (simp add: lit_def)
  have line: "summary_line sample_arith nan_summary = lit ''C2|nan|nan|2|nan|nan|2024-01-02'' @ nl"
    by (simp add: nan_summary_def summary_line_def num_str_def sample_ops sample_prints
        sample_ints bar_def)
       (simp add: lit_def)
  show ?thesis
    unfolding aggregate_billing_data_def loop
    by (simp add: ne sample_ops sample_div_def line [unfolded nan_summary_def] nan_summary_def)
qed

text \<open>
  C6, as the code has it. On a billing file whose data rows have at least three fields and
  an amount that is empty, \<^verbatim>\<open>NULL\<close> or accepted by \<^verbatim>\<open>float\<close>, the run succeeds, and for every
  customer id in the file there is exactly one summary, written as one line of the output
  file with its fields in the order of the header. Its total is the amounts of that
  customer added up from zero in the order of the file (an empty or \<^verbatim>\<open>NULL\<close> amount counting
  as zero), its count is the number of rows of that customer, its average is the total
  divided by the count, its minimum and its maximum are amounts of that customer, and its
  last billing date is the greatest date string of that customer's rows in the
  lexicographic order. The minimum is less than or equal to every amount of the customer
  and the maximum greater than or equal to it when none of these amounts is NaN, that is
  when the comparisons are those of a linear order on them; \<^verbatim>\<open>float\<close> accepts \<^verbatim>\<open>nan\<close>, and
  with a NaN among the amounts no bound holds.
\<close>

theorem billing_summary_values:
  assumes "valid_billing A lines" and "c \<in> set (ids_of (billing_rows lines))"
  shows "\<exists>res s. aggregate_billing_data A lines = Inr res
           \<and> filter (\<lambda>s. s_customer_id s = c) (b_summaries res) = [s]
           \<and> b_file res = aggregated_header # map (summary_line A) (b_summaries res)
           \<and> summary_line A s =
               c @ bar @ f_str A (s_total s) @ bar
               @ f_str A (f_div A (s_total s) (s_count s)) @ bar
               @ str_int (s_count s) @ bar @ f_str A (s_min s) @ bar @ f_str A (s_max s) @ bar
               @ s_last_date s @ nl
           \<and> s_total s = foldl (f_add A) (f_zero A) (amounts_of A c (billing_rows lines))
           \<and> s_avg s = PyFloat (f_div A (s_total s) (s_count s))
           \<and> s_count s = int (length (rows_of c (billing_rows lines)))
           \<and> length (amounts_of A c (billing_rows lines)) = length (rows_of c (billing_rows lines))
           \<and> s_min s \<in> set (amounts_of A c (billing_rows lines))
           \<and> s_max s \<in> set (amounts_of A c (billing_rows lines))
           \<and> (comparable A (amounts_of A c (billing_rows lines)) \<longrightarrow>
                 (\<forall>a\<in>set (amounts_of A c (billing_rows lines)). f_le A (s_min s) a)
                 \<and> (\<forall>a\<in>set (amounts_of A c (billing_rows lines)). f_le A a (s_max s)))
           \<and> s_last_date s \<in> set (dates_of c (billing_rows lines))
           \<and> (\<forall>d\<in>set (dates_of c (billing_rows lines)). d \<le> s_last_date s)"
proof -
  let ?data = "billing_rows lines"
  let ?ks = "first_seen (ids_of ?data)"
  let ?s = "summary_for A ?data c"
  define res where "res = \<lparr>b_summaries = map (summary_for A ?data) ?ks,
       b_file = aggregated_header # map (summary_line A) (map (summary_for A ?data) ?ks)\<rparr>"
  have run: "aggregate_billing_data A lines = Inr res"
    unfolding res_def by (rule aggregate_eq [OF assms(1)])
  from assms(1) have v: "\<forall>row\<in>set ?data. amount_read A (row ! 1) \<noteq> None"
    by (auto simp: valid_billing_def list_all_iff)
  have am: "amounts_of A c ?data \<noteq> []"
    using amounts_of_empty_iff [OF v, of c] assms(2) by simp
  have dt: "dates_of c ?data \<noteq> []"
    using dates_of_empty_iff [of c ?data] assms(2) by simp
  have mem: "c \<in> set ?ks"
    using assms(2) by (simp add: first_seen_dedup set_dedup_loop)
  have dist: "distinct ?ks"
    by (simp add: first_seen_dedup distinct_dedup_loop)
  have one: "filter (\<lambda>s. s_customer_id s = c) (b_summaries res) = [?s]"
    unfolding res_def billing_result.simps
    by (rule filter_key_map [OF dist mem]) (simp add: summary_for_def)
  have bfile: "b_file res = aggregated_header # map (summary_line A) (b_summaries res)"
    by (simp add: res_def)
  have line: "summary_line A ?s =
               c @ bar @ f_str A (s_total ?s) @ bar
               @ f_str A (f_div A (s_total ?s) (s_count ?s)) @ bar
               @ str_int (s_count ?s) @ bar @ f_str A (s_min ?s) @ bar @ f_str A (s_max ?s) @ bar
               @ s_last_date ?s @ nl"
    by (simp add: summary_line_def summary_for_def num_str_def)
  have vals: "s_total ?s = foldl (f_add A) (f_zero A) (amounts_of A c ?data)"
    "s_avg ?s = PyFloat (f_div A (s_total ?s) (s_count ?s))"
    "s_count ?s = int (length (rows_of c ?data))"
    by (simp_all add: summary_for_def)
  have len: "length (amounts_of A c ?data) = length (rows_of c ?data)"
    by (rule length_amounts_of [OF v])
  have attained: "s_min ?s \<in> set (amounts_of A c ?data)" "s_max ?s \<in> set (amounts_of A c ?data)"
    using kept_min_mem [OF am] kept_max_mem [OF am] by (simp_all add: summary_for_def)
  have bounds: "comparable A (amounts_of A c ?data) \<longrightarrow>
                 (\<forall>a\<in>set (amounts_of A c ?data). f_le A (s_min ?s) a)
                 \<and> (\<forall>a\<in>set (amounts_of A c ?data). f_le A a (s_max ?s))"
    using kept_bounds [OF _ am] by (simp add: summary_for_def)
  have date: "s_last_date ?s \<in> set (dates_of c ?data)"
    "\<forall>d\<in>set (dates_of c ?data). d \<le> s_last_date ?s"
    using dt by (simp_all add: summary_for_def)
  show ?thesis
    using run one bfile line vals len attained bounds date by blast
qed

theorem billing_summary_values_witness:
  "valid_billing sample_arith sample_billing
   \<and> lit ''C1'' \<in> set (ids_of (billing_rows sample_billing))
   \<and> amounts_of sample_arith (lit ''C1'') (billing_rows sample_billing) = [Val 10, Val 20]
   \<and> comparable sample_arith [Val 10, Val 20]
   \<and> (\<exists>res s. aggregate_billing_data sample_arith sample_billing = Inr res
          \<and> filter (\<lambda>s. s_customer_id s = lit ''C1'') (b_summaries res) = [s]
          \<and> b_file res = [aggregated_header,
               lit ''C1|30.0|15.0|2|10.0|20.0|2024-01-10'' @ nl,
               lit ''C2|0.0|0.0|1|0.0|0.0|2024-01-07'' @ nl]
          \<and> summary_line sample_arith s = lit ''C1|30.0|15.0|2|10.0|20.0|2024-01-10'' @ nl
          \<and> s_total s = Val 30 \<and> s_avg s = PyFloat (Val 15) \<and> s_count s = 2
          \<and> s_min s = Val 10 \<and> s_max s = Val 20 \<and> s_last_date s = lit ''2024-01-10''
          \<and> f_le sample_arith (s_min s) (Val 10) \<and> f_le sample_arith (s_min s) (Val 20)
          \<and> f_le sample_arith (Val 10) (s_max s) \<and> f_le sample_arith (Val 20) (s_max s))"
proof -
  have mem: "lit ''C1'' \<in> set (ids_of (billing_rows sample_billing))"
    by (simp add: sample_billing_rows ids_of_def)
  have ams: "amounts_of sample_arith (lit ''C1'') (billing_rows sample_billing) = [Val 10, Val 20]"
    unfolding sample_billing_rows by (simp add: sample_amounts) (simp add: lit_def)
  have cmp: "comparable sample_arith [Val 10, Val 20]"
    by (simp add: comparable_def sample_ops sample_less_def sample_le_def)
  from billing_summary_values [OF sample_billing_valid mem]
  obtain res s where rs: "aggregate_billing_data sample_arith sample_billing = Inr res"
    "filter (\<lambda>s. s_customer_id s = lit ''C1'') (b_summaries res) = [s]"
    and bounds: "comparable sample_arith
                   (amounts_of sample_arith (lit ''C1'') (billing_rows sample_billing)) \<longrightarrow>
       (\<forall>a\<in>set (amounts_of sample_arith (lit ''C1'') (billing_rows sample_billing)).
          f_le sample_arith (s_min s) a)
       \<and> (\<forall>a\<in>set (amounts_of sample_arith (lit ''C1'') (billing_rows sample_billing)).
          f_le sample_arith a (s_max s))"
    by blast
  from rs(1) sample_billing_run have res: "b_summaries res = sample_summaries"
    "b_file res = aggregated_header # map (summary_line sample_arith) sample_summaries"
    by auto
  have s: "s = \<lparr>s_customer_id = lit ''C1'', s_total = Val 30, s_avg = PyFloat (Val 15),
       s_count = 2, s_min = Val 10, s_max = Val 20, s_last_date = lit ''2024-01-10''\<rparr>"
    using rs(2) unfolding res by (simp add: sample_summaries_def lit_def)
  have line: "summary_line sample_arith s = lit ''C1|30.0|15.0|2|10.0|20.0|2024-01-10'' @ nl"
    using sample_file by (simp add: s sample_summaries_def)
  from bounds cmp have le: "f_le sample_arith (s_min s) (Val 10)"
    "f_le sample_arith (s_min s) (Val 20)" "f_le sample_arith (Val 10) (s_max s)"
    "f_le sample_arith (Val 20) (s_max s)"
    unfolding ams by simp_all
  have vals: "s_total s = Val 30" "s_avg s = PyFloat (Val 15)" "s_count s = 2"
    "s_min s = Val 10" "s_max s = Val 20" "s_last_date s = lit ''2024-01-10''"
    by (simp_all add: s)
  have bfile: "b_file res = [aggregated_header,
               lit ''C1|30.0|15.0|2|10.0|20.0|2024-01-10'' @ nl,
               lit ''C2|0.0|0.0|1|0.0|0.0|2024-01-07'' @ nl]"
    by (simp add: res sample_file)
  show ?thesis
    using sample_billing_valid mem ams cmp rs bfile line vals le by blast
qed

theorem billing_min_max_nan_counterexample:
  "valid_billing sample_arith nan_billing
   \<and> aggregate_billing_data sample_arith nan_billing =
       Inr \<lparr>b_summaries = [nan_summary],
            b_file = [aggregated_header, lit ''C2|nan|nan|2|nan|nan|2024-01-02'' @ nl]\<rparr>
   \<and> amounts_of sample_arith (lit ''C2'') (billing_rows nan_billing) = [NaN, Val 7]
   \<and> s_min nan_summary = NaN \<and> s_max nan_summary = NaN
   \<and> \<not> f_le sample_arith (s_min nan_summary) (Val 7)
   \<and> \<not> f_le sample_arith (Val 7) (s_max nan_summary)"
proof -
  have valid: "valid_billing sample_arith nan_billing"
    unfolding valid_billing_def nan_billing_rows
    by (simp add: sample_amounts) (simp add: nan_billing_def)
  have ams: "amounts_of sample_arith (lit ''C2'') (billing_rows nan_billing) = [NaN, Val 7]"
    unfolding nan_billing_rows by (simp add: sample_amounts)
  show ?thesis
    using valid nan_billing_run ams
    by (simp add: nan_summary_def sample_ops sample_le_def)
qed

text \<open>
  C7. On such a billing file the run succeeds and writes, after the header line, one
  summary line for each distinct customer id, in the order in which the ids first appear
  in the file; the record counts of the summaries add up to the number of data rows, which
  are all the lines after the first.
\<close>

theorem billing_one_summary_per_customer:
  assumes "valid_billing A lines"
  shows "\<exists>res. aggregate_billing_data A lines = Inr res
           \<and> map s_customer_id (b_summaries res) = first_seen (ids_of (billing_rows lines))
           \<and> distinct (map s_customer_id (b_summaries res))
           \<and> set (map s_customer_id (b_summaries res)) = set (ids_of (billing_rows lines))
           \<and> b_file res = aggregated_header # map (summary_line A) (b_summaries res)
           \<and> sum_list (map s_count (b_summaries res)) = int (length (billing_rows lines))
           \<and> length (billing_rows lines) = length lines - 1"
proof -
  let ?data = "billing_rows lines"
  let ?ks = "first_seen (ids_of ?data)"
  have dist: "distinct ?ks"
    by (simp add: first_seen_dedup distinct_dedup_loop)
  have keys: "set ?ks = set (ids_of ?data)"
    by (simp add: first_seen_dedup set_dedup_loop)
  have total: "(\<Sum>c\<leftarrow>?ks. int (length (rows_of c ?data))) = int (length ?data)"
    using counts_sum [OF dist, of ?data] keys by simp
  have len: "length ?data = length lines - 1"
    by (simp add: billing_rows_def)
  define res where "res = \<lparr>b_summaries = map (summary_for A ?data) ?ks,
       b_file = aggregated_header # map (summary_line A) (map (summary_for A ?data) ?ks)\<rparr>"
  have run: "aggregate_billing_data A lines = Inr res"
    unfolding res_def by (rule aggregate_eq [OF assms])
  have ids: "map s_customer_id (b_summaries res) = ?ks"
    by (simp add: res_def o_def summary_for_def)
  have cnt: "map s_count (b_summaries res) = map (\<lambda>c. int (length (rows_of c ?data))) ?ks"
    by (simp add: res_def o_def summary_for_def)
  have bfile: "b_file res = aggregated_header # map (summary_line A) (b_summaries res)"
    by (simp add: res_def)
  have "distinct (map s_customer_id (b_summaries res))"
    unfolding ids by (rule dist)
  moreover have "set (map s_customer_id (b_summaries res)) = set (ids_of ?data)"
    unfolding ids by (rule keys)
  moreover have "sum_list (map s_count (b_summaries res)) = int (length ?data)"
    unfolding cnt by (rule total)
  ultimately show ?thesis
    using run ids bfile len by blast
qed

theorem billing_one_summary_per_customer_witness:
  "valid_billing sample_arith sample_billing
   \<and> (\<exists>res. aggregate_billing_data sample_arith sample_billing = Inr res
          \<and> map s_customer_id (b_summaries res) = [lit ''C1'', lit ''C2'']
          \<and> b_file res = [aggregated_header,
               lit ''C1|30.0|15.0|2|10.0|20.0|2024-01-10'' @ nl,
               lit ''C2|0.0|0.0|1|0.0|0.0|2024-01-07'' @ nl]
          \<and> sum_list (map s_count (b_summaries res)) = 3)"
  using billing_one_summary_per_customer [OF sample_billing_valid] sample_billing_valid
    sample_billing_run sample_file
  by (simp add: sample_summaries_def)

section \<open>Properties of the report composer\<close>

lemma sample_usage_lines:
  "map strip sample_deduped =
     [lit ''customer_id|call_minutes|data_usage_mb'', lit ''C1|5|100.5'', lit ''C2|7|20'']"
  by (simp add: sample_deduped_def strip_def isspace_char_def in_ranges_def space_ranges_def
      lit_def nl_def)

lemma sample_parts:
  "split_on 124 (lit ''C1|5|100.5'') = [lit ''C1'', lit ''5'', lit ''100.5'']"
  "split_on 124 (lit ''C2|7|20'') = [lit ''C2'', lit ''7'', lit ''20'']"
  by (simp_all add: lit_def)

lemma sample_usage_values:
  "isdigit (remove1 46 (lit ''100.5''))" "isdigit (remove1 46 (lit ''20''))"
  "f_parse sample_arith (lit ''100.5'') = Some (Val (201 / 2))"
  "f_parse sample_arith (lit ''20'') = Some (Val 20)"
  by (simp_all add: isdigit_def isdigit_char_def in_ranges_def digit_ranges_def sample_arith_def
      sample_parse_def dec_value_def ascii_digit_def lit_def Let_def)

lemma sample_usage_loop:
  "usage_loop sample_arith [lit ''C1|5|100.5'', lit ''C2|7|20''] 2 (Val 0) f =
     Inr (f @ [usage_heading,
               lit ''  - Total usage records: 2'' @ nl,
               lit ''  - Total data usage (MB): 100.5'' @ nl @ nl,
               usage_heading,
               lit ''  - Total usage records: 2'' @ nl,
               lit ''  - Total data usage (MB): 120.5'' @ nl @ nl])"
proof -
  show ?thesis
    by (simp add: sample_parts sample_usage_values sample_ops sample_add_def sample_ints
        sample_prints Let_def)
       (simp add: lit_def)
qed

lemma sample_revenues:
  "revenues sample_arith (drop (Suc 0) sample_aggregated) = Inr [Val 30, Val 0]"
proof -
  have parts:
    "split_on 124 (lit ''C1|30.0|15.0|2|10.0|20.0|2024-01-10'' @ nl) =
       [lit ''C1'', lit ''30.0'', lit ''15.0'', lit ''2'', lit ''10.0'', lit ''20.0'',
        lit ''2024-01-10'' @ nl]"
    "split_on 124 (lit ''C2|0.0|0.0|1|0.0|0.0|2024-01-07'' @ nl) =
       [lit ''C2'', lit ''0.0'', lit ''0.0'', lit ''1'', lit ''0.0'', lit ''0.0'',
        lit ''2024-01-07'' @ nl]"
    by (simp_all add: lit_def nl_def)
  have vals: "f_parse sample_arith (lit ''30.0'') = Some (Val 30)"
    "f_parse sample_arith (lit ''0.0'') = Some (Val 0)"
    by (simp_all add: sample_arith_def sample_parse_def dec_value_def ascii_digit_def lit_def
        Let_def)
  show ?thesis
    by (simp add: sample_aggregated_def parts vals Let_def)
qed

lemma sample_customer_counts:
  "drop (Suc 0) sample_cleaned = [row_alice_cleaned]"
  "length row_alice_cleaned = 7" "row_alice_cleaned ! 5 = lit ''ACTIVE''"
  "length sample_cleaned = 2" "length sample_aggregated = 3"
  by (simp_all add: sample_cleaned_def row_alice_cleaned_def sample_aggregated_def)

lemma usage_loop_sections:
  "usage_loop A ls n t f = Inr f' \<Longrightarrow>
   count_list f' usage_heading = count_list f usage_heading + length ls"
proof (induction ls arbitrary: t f)
  case Nil
  then show ?case by simp
next
  case (Cons line ls)
  have other: "lit ''  - Total usage records: '' @ x \<noteq> usage_heading"
    "lit ''  - Total data usage (MB): '' @ y \<noteq> usage_heading" for x y
    by (simp_all add: usage_heading_def lit_def)
  from Cons.prems obtain t' where
    "usage_loop A ls n t'
       (f @ [usage_heading, lit ''  - Total usage records: '' @ str_int n @ nl,
             lit ''  - Total data usage (MB): '' @ f_str A t' @ nl @ nl]) = Inr f'"
    by (auto simp: Let_def split: option.splits if_splits)
  from Cons.IH [OF this] show ?case
    by (simp add: other)
qed

lemma report_usage_sections:
  assumes "create_final_report A now now_str reader usage_lines billing_lines = Inr f"
  shows "count_list f usage_heading = length usage_lines - 1"
proof -
  have other: "lit ''=== TELECOM DAILY ETL REPORT - '' @ a \<noteq> usage_heading"
    "customer_heading \<noteq> usage_heading"
    "lit ''  - Total customers processed: '' @ b \<noteq> usage_heading"
    "lit ''  - Active customers: '' @ c \<noteq> usage_heading"
    "billing_heading \<noteq> usage_heading"
    "lit ''  - Customers with billing: '' @ d \<noteq> usage_heading"
    "lit ''  - Total revenue: '' @ e \<noteq> usage_heading"
    "summary_heading \<noteq> usage_heading"
    "lit ''  - Script: telecom_etl_pipeline (Python version)'' @ nl \<noteq> usage_heading"
    "lit ''  - Status: SUCCESS'' @ nl \<noteq> usage_heading"
    "lit ''  - Report generated at: '' @ g \<noteq> usage_heading" for a b c d e g
    by (simp_all add: usage_heading_def customer_heading_def billing_heading_def
        summary_heading_def lit_def)
  let ?f0 = "[lit ''=== TELECOM DAILY ETL REPORT - '' @ now @ lit '' ==='' @ nl @ nl,
              customer_heading,
              lit ''  - Total customers processed: '' @ str_int (int (length reader) - 1) @ nl,
              lit ''  - Active customers: ''
              @ str_int (int (length (filter (\<lambda>row. row ! 5 = lit ''ACTIVE'')
                                        (drop (Suc 0) reader)))) @ nl @ nl]"
  from assms obtain f1 vs where
    loop: "usage_loop A (drop (Suc 0) (map strip usage_lines))
             (int (length usage_lines - Suc 0)) (f_zero A) ?f0 = Inr f1"
    and f: "f = f1 @ [billing_heading,
              lit ''  - Customers with billing: '' @ str_int (int (length billing_lines) - 1) @ nl,
              lit ''  - Total revenue: '' @ f_fix2 A (f_sum A vs) @ nl @ nl,
              summary_heading,
              lit ''  - Script: telecom_etl_pipeline (Python version)'' @ nl,
              lit ''  - Status: SUCCESS'' @ nl,
              lit ''  - Report generated at: '' @ now_str @ nl]"
    by (auto simp: create_final_report_def Let_def split: if_splits sum.splits)
  have f0: "count_list ?f0 usage_heading = 0"
    by (simp add: other)
  from usage_loop_sections [OF loop] f0
  have "count_list f1 usage_heading = length usage_lines - 1"
    by simp
  then show ?thesis
    unfolding f by (simp add: other)
qed

text \<open>
  C1. The report is meant to hold each of its four sections once, in the order customer,
  usage, billing, summary. The customer, billing and summary sections are written once.
  The usage section is written in the body of the loop over the data lines of the usage
  file, so it is written once for every data line, each time with the running total: with
  two data lines the report has two usage sections, and with none it has no usage section.
\<close>

theorem report_repeats_usage_section:
  "create_final_report sample_arith sample_now sample_now_str sample_cleaned sample_deduped
     sample_aggregated =
   Inr [lit ''=== TELECOM DAILY ETL REPORT - 2024-01-11 00:00:00 ==='' @ nl @ nl,
        lit ''CUSTOMER DATA STATISTICS:'' @ nl,
        lit ''  - Total customers processed: 1'' @ nl,
        lit ''  - Active customers: 1'' @ nl @ nl,
        lit ''USAGE DATA STATISTICS:'' @ nl,
        lit ''  - Total usage records: 2'' @ nl,
        lit ''  - Total data usage (MB): 100.5'' @ nl @ nl,
        lit ''USAGE DATA STATISTICS:'' @ nl,
        lit ''  - Total usage records: 2'' @ nl,
        lit ''  - Total data usage (MB): 120.5'' @ nl @ nl,
        lit ''BILLING DATA STATISTICS:'' @ nl,
        lit ''  - Customers with billing: 2'' @ nl,
        lit ''  - Total revenue: 30.00'' @ nl @ nl,
        lit ''PROCESSING SUMMARY:'' @ nl,
        lit ''  - Script: telecom_etl_pipeline (Python version)'' @ nl,
        lit ''  - Status: SUCCESS'' @ nl,
        lit ''  - Report generated at: 2024-01-11 00:00:00.000001'' @ nl]
   \<and> create_final_report sample_arith sample_now sample_now_str sample_cleaned
       sample_deduped_header_only sample_aggregated =
   Inr [lit ''=== TELECOM DAILY ETL REPORT - 2024-01-11 00:00:00 ==='' @ nl @ nl,
        lit ''CUSTOMER DATA STATISTICS:'' @ nl,
        lit ''  - Total customers processed: 1'' @ nl,
        lit ''  - Active customers: 1'' @ nl @ nl,
        lit ''BILLING DATA STATISTICS:'' @ nl,
        lit ''  - Customers with billing: 2'' @ nl,
        lit ''  - Total revenue: 30.00'' @ nl @ nl,
        lit ''PROCESSING SUMMARY:'' @ nl,
        lit ''  - Script: telecom_etl_pipeline (Python version)'' @ nl,
        lit ''  - Status: SUCCESS'' @ nl,
        lit ''  - Report generated at: 2024-01-11 00:00:00.000001'' @ nl]"
proof -
  have hdr: "map strip sample_deduped_header_only = [lit ''customer_id|call_minutes|data_usage_mb'']"
    by (simp add: sample_deduped_header_only_def strip_def isspace_char_def in_ranges_def
        space_ranges_def lit_def nl_def)
  have one: "create_final_report sample_arith sample_now sample_now_str sample_cleaned
      sample_deduped sample_aggregated =
    Inr ([lit ''=== TELECOM DAILY ETL REPORT - '' @ sample_now @ lit '' ==='' @ nl @ nl,
          customer_heading,
          lit ''  - Total customers processed: '' @ lit ''1'' @ nl,
          lit ''  - Active customers: '' @ lit ''1'' @ nl @ nl,
          usage_heading,
          lit ''  - Total usage records: 2'' @ nl,
          lit ''  - Total data usage (MB): 100.5'' @ nl @ nl,
          usage_heading,
          lit ''  - Total usage records: 2'' @ nl,
          lit ''  - Total data usage (MB): 120.5'' @ nl @ nl,
          billing_heading,
          lit ''  - Customers with billing: '' @ lit ''2'' @ nl,
          lit ''  - Total revenue: '' @ lit ''30.00'' @ nl @ nl,
          summary_heading,
          lit ''  - Script: telecom_etl_pipeline (Python version)'' @ nl,
          lit ''  - Status: SUCCESS'' @ nl,
          lit ''  - Report generated at: '' @ sample_now_str @ nl])"
    unfolding create_final_report_def
    by (simp add: sample_customer_counts sample_usage_lines sample_usage_loop sample_revenues
        sample_ints sample_ops sample_add_def sample_prints Let_def del: usage_loop.simps revenues.simps)
  have two: "create_final_report sample_arith sample_now sample_now_str sample_cleaned
      sample_deduped_header_only sample_aggregated =
    Inr ([lit ''=== TELECOM DAILY ETL REPORT - '' @ sample_now @ lit '' ==='' @ nl @ nl,
          customer_heading,
          lit ''  - Total customers processed: '' @ lit ''1'' @ nl,
          lit ''  - Active customers: '' @ lit ''1'' @ nl @ nl,
          billing_heading,
          lit ''  - Customers with billing: '' @ lit ''2'' @ nl,
          lit ''  - Total revenue: '' @ lit ''30.00'' @ nl @ nl,
          summary_heading,
          lit ''  - Script: telecom_etl_pipeline (Python version)'' @ nl,
          lit ''  - Status: SUCCESS'' @ nl,
          lit ''  - Report generated at: '' @ sample_now_str @ nl])"
    unfolding create_final_report_def
    by (simp add: sample_customer_counts hdr sample_revenues sample_ints sample_ops sample_add_def sample_prints Let_def
        del: revenues.simps)
  show ?thesis
    unfolding one two
    by (simp add: customer_heading_def usage_heading_def billing_heading_def
        summary_heading_def sample_now_def sample_now_str_def lit_def)
qed

end
